theory Spec2Isabelle
  imports Complex_Main
begin

section \<open>Python values\<close>

text \<open>
  The parsers of \<^verbatim>\<open>app.py\<close> work on what \<^verbatim>\<open>json.loads(content.decode('utf-8'))\<close>
  returns or raises. Both calls belong to the Python library, so a buffer is modelled by
  their outcome: \<open>InvalidUtf8\<close> when \<^verbatim>\<open>decode\<close> raises \<^verbatim>\<open>UnicodeDecodeError\<close>, \<open>InvalidJson\<close>
  when \<^verbatim>\<open>json.loads\<close> raises \<^verbatim>\<open>JSONDecodeError\<close>, \<open>Uncaught e\<close> when \<^verbatim>\<open>json.loads\<close> raises
  another exception (\<^verbatim>\<open>RecursionError\<close> on deeply nested text, \<^verbatim>\<open>ValueError\<close> on an
  integer literal beyond the digit limit), which the \<^verbatim>\<open>except\<close> clause of the parsers does
  not catch, and \<open>Decoded v\<close> when it returns the value \<open>v\<close>.

  A Python \<^verbatim>\<open>str\<close> is a \<^typ>\<open>string\<close> whose characters are the code points below 256;
  \<open>lower\<close> and \<open>isspace\<close> are Python's \<^verbatim>\<open>str.lower\<close> and \<^verbatim>\<open>str.isspace\<close> on that range.
  A float is the real number it denotes, or one of the three special values that
  \<^verbatim>\<open>json.loads\<close> accepts. A JSON object is the \<^verbatim>\<open>dict\<close> it decodes to, as an association
  list read with \<^const>\<open>map_of\<close>.
\<close>

datatype py_float = Float real | NaN | PosInfinity | NegInfinity

datatype json =
    JNull
  | JBool bool
  | JInt int
  | JFloat py_float
  | JStr string
  | JArr "json list"
  | JObj "(string \<times> json) list"

datatype py_error =
  AttributeError | TypeError | IndexError | KeyError | RecursionError | ValueError

datatype buffer = InvalidUtf8 | InvalidJson | Uncaught py_error | Decoded json

definition isspace :: "char \<Rightarrow> bool" where
  "isspace c =
     (let n = (of_char c :: nat)
      in (9 \<le> n \<and> n \<le> 13) \<or> (28 \<le> n \<and> n \<le> 32) \<or> n = 133 \<or> n = 160)"

definition lower_char :: "char \<Rightarrow> char" where
  "lower_char c =
     (let n = (of_char c :: nat)
      in if (65 \<le> n \<and> n \<le> 90) \<or> (192 \<le> n \<and> n \<le> 222 \<and> n \<noteq> 215)
         then char_of (n + 32) else c)"

definition lower :: "string \<Rightarrow> string" where
  "lower s = map lower_char s"

definition strip :: "string \<Rightarrow> string" where
  "strip s = rev (dropWhile isspace (rev (dropWhile isspace s)))"

text \<open>Truth value of a decoded JSON value, as \<^verbatim>\<open>if x:\<close> tests it.\<close>

fun truthy :: "json \<Rightarrow> bool" where
  "truthy JNull = False"
| "truthy (JBool b) = b"
| "truthy (JInt n) = (n \<noteq> 0)"
| "truthy (JFloat x) = (x \<noteq> Float 0)"
| "truthy (JStr s) = (s \<noteq> [])"
| "truthy (JArr xs) = (xs \<noteq> [])"
| "truthy (JObj kvs) = (kvs \<noteq> [])"

text \<open>\<^verbatim>\<open>x.get(k, d)\<close>: only a dict has the method; the default is used for an absent key only.\<close>

fun py_get :: "json \<Rightarrow> string \<Rightarrow> json \<Rightarrow> py_error + json" where
  "py_get (JObj kvs) k d = Inr (case map_of kvs k of None \<Rightarrow> d | Some v \<Rightarrow> v)"
| "py_get _ k d = Inl AttributeError"

text \<open>\<^verbatim>\<open>x.strip()\<close>: only a str has the method.\<close>

fun py_strip :: "json \<Rightarrow> py_error + string" where
  "py_strip (JStr s) = Inr (strip s)"
| "py_strip _ = Inl AttributeError"

text \<open>\<^verbatim>\<open>for item in x\<close>: a list gives its elements, a str its characters, a dict its keys.\<close>

fun py_iter :: "json \<Rightarrow> py_error + json list" where
  "py_iter (JArr xs) = Inr xs"
| "py_iter (JStr s) = Inr (map (\<lambda>c. JStr [c]) s)"
| "py_iter (JObj kvs) = Inr (map (\<lambda>kv. JStr (fst kv)) kvs)"
| "py_iter _ = Inl TypeError"

text \<open>\<^verbatim>\<open>x[0]\<close>; the keys of a decoded dict are strings, so \<^verbatim>\<open>0\<close> is never one of them.\<close>

fun py_first :: "json \<Rightarrow> py_error + json" where
  "py_first (JArr xs) = (case xs of [] \<Rightarrow> Inl IndexError | x # _ \<Rightarrow> Inr x)"
| "py_first (JStr s) = (case s of [] \<Rightarrow> Inl IndexError | c # _ \<Rightarrow> Inr (JStr [c]))"
| "py_first (JObj kvs) = Inl KeyError"
| "py_first _ = Inl TypeError"

text \<open>A \<^verbatim>\<open>for\<close> loop whose body may raise: the first exception leaves the loop.\<close>

fun for_each :: "('s \<Rightarrow> 'a \<Rightarrow> py_error + 's) \<Rightarrow> 'a list \<Rightarrow> 's \<Rightarrow> py_error + 's" where
  "for_each body [] s = Inr s"
| "for_each body (x # xs) s =
     (case body s x of Inl e \<Rightarrow> Inl e | Inr s' \<Rightarrow> for_each body xs s')"

section \<open>The domain entity\<close>

datatype InstagramUser = InstagramUser (username: string)

definition profile_url :: "InstagramUser \<Rightarrow> string" where
  "profile_url u = ''https://www.instagram.com/'' @ username u"

text \<open>\<^verbatim>\<open>__hash__\<close>, with the built-in hash of strings as a parameter.\<close>

definition user_hash :: "(string \<Rightarrow> int) \<Rightarrow> InstagramUser \<Rightarrow> int" where
  "user_hash str_hash u = str_hash (lower (username u))"

text \<open>\<^verbatim>\<open>__eq__\<close> between two users.\<close>

definition user_eq :: "InstagramUser \<Rightarrow> InstagramUser \<Rightarrow> bool" where
  "user_eq u v = (lower (username u) = lower (username v))"

text \<open>
  A Python set of users holds no two members that are \<^verbatim>\<open>==\<close>. It is modelled by the list of
  its members; membership goes through \<^const>\<open>user_eq\<close>, and \<^verbatim>\<open>add\<close> keeps the member that
  is already there. The order of the list stands for nothing.
\<close>

type_synonym user_set = "InstagramUser list"

definition contains :: "user_set \<Rightarrow> InstagramUser \<Rightarrow> bool" where
  "contains us u = list_ex (\<lambda>v. user_eq v u) us"

definition set_add :: "user_set \<Rightarrow> InstagramUser \<Rightarrow> user_set" where
  "set_add us u = (if contains us u then us else us @ [u])"

definition difference :: "user_set \<Rightarrow> user_set \<Rightarrow> user_set" where
  "difference a b = filter (\<lambda>u. \<not> contains b u) a"

text \<open>\<^verbatim>\<open>a & b\<close> walks the smaller operand (\<open>b\<close> on a tie) and keeps its members.\<close>

definition intersection :: "user_set \<Rightarrow> user_set \<Rightarrow> user_set" where
  "intersection a b =
     (if length a < length b then filter (contains b) a else filter (contains a) b)"

definition canonical :: "InstagramUser \<Rightarrow> string" where
  "canonical u = lower (username u)"

definition keys :: "user_set \<Rightarrow> string set" where
  "keys us = set (map canonical us)"

definition valid_set :: "user_set \<Rightarrow> bool" where
  "valid_set us = distinct (map canonical us)"

section \<open>The parsers\<close>

type_synonym timestamps = "string \<rightharpoonup> json"

definition followers_item :: "user_set \<Rightarrow> json \<Rightarrow> py_error + user_set" where
  "followers_item users item =
     (case py_get item ''value'' JNull of
        Inl e \<Rightarrow> Inl e
      | Inr val \<Rightarrow>
          if truthy val then
            (case py_strip val of
               Inl e \<Rightarrow> Inl e
             | Inr s \<Rightarrow> Inr (set_add users (InstagramUser s)))
          else Inr users)"

definition followers_entry :: "user_set \<Rightarrow> json \<Rightarrow> py_error + user_set" where
  "followers_entry users entry =
     (case py_get entry ''string_list_data'' (JArr []) of
        Inl e \<Rightarrow> Inl e
      | Inr string_list \<Rightarrow>
          (case py_iter string_list of
             Inl e \<Rightarrow> Inl e
           | Inr items \<Rightarrow> for_each followers_item items users))"

definition followers_file :: "user_set \<Rightarrow> buffer \<Rightarrow> py_error + user_set" where
  "followers_file users content =
     (case content of
        Decoded (JArr entries) \<Rightarrow> for_each followers_entry entries users
      | Uncaught e \<Rightarrow> Inl e
      | _ \<Rightarrow> Inr users)"

definition parse_followers :: "buffer list \<Rightarrow> py_error + user_set" where
  "parse_followers files = for_each followers_file files []"

definition followers_item_ts ::
  "user_set \<times> timestamps \<Rightarrow> json \<Rightarrow> py_error + user_set \<times> timestamps" where
  "followers_item_ts st item =
     (case py_get item ''value'' JNull of
        Inl e \<Rightarrow> Inl e
      | Inr val \<Rightarrow>
          if truthy val then
            (case py_strip val of
               Inl e \<Rightarrow> Inl e
             | Inr name \<Rightarrow>
                 (case py_get item ''timestamp'' JNull of
                    Inl e \<Rightarrow> Inl e
                  | Inr ts \<Rightarrow>
                      Inr (set_add (fst st) (InstagramUser name),
                           if truthy ts then (snd st)(lower name \<mapsto> ts) else snd st)))
          else Inr st)"

definition followers_entry_ts ::
  "user_set \<times> timestamps \<Rightarrow> json \<Rightarrow> py_error + user_set \<times> timestamps" where
  "followers_entry_ts st entry =
     (case py_get entry ''string_list_data'' (JArr []) of
        Inl e \<Rightarrow> Inl e
      | Inr string_list \<Rightarrow>
          (case py_iter string_list of
             Inl e \<Rightarrow> Inl e
           | Inr items \<Rightarrow> for_each followers_item_ts items st))"

definition followers_file_ts ::
  "user_set \<times> timestamps \<Rightarrow> buffer \<Rightarrow> py_error + user_set \<times> timestamps" where
  "followers_file_ts st content =
     (case content of
        Decoded (JArr entries) \<Rightarrow> for_each followers_entry_ts entries st
      | Uncaught e \<Rightarrow> Inl e
      | _ \<Rightarrow> Inr st)"

definition parse_followers_with_timestamps ::
  "buffer list \<Rightarrow> py_error + user_set \<times> timestamps" where
  "parse_followers_with_timestamps files = for_each followers_file_ts files ([], Map.empty)"

definition following_entry :: "user_set \<Rightarrow> json \<Rightarrow> py_error + user_set" where
  "following_entry users entry =
     (case py_get entry ''title'' JNull of
        Inl e \<Rightarrow> Inl e
      | Inr title \<Rightarrow>
          if truthy title then
            (case py_strip title of
               Inl e \<Rightarrow> Inl e
             | Inr s \<Rightarrow> Inr (set_add users (InstagramUser s)))
          else Inr users)"

definition parse_following :: "buffer \<Rightarrow> py_error + user_set" where
  "parse_following content =
     (case content of
        Decoded data \<Rightarrow>
          (case py_get data ''relationships_following'' (JArr []) of
             Inl e \<Rightarrow> Inl e
           | Inr (JArr relationships) \<Rightarrow> for_each following_entry relationships []
           | Inr _ \<Rightarrow> Inr [])
      | Uncaught e \<Rightarrow> Inl e
      | _ \<Rightarrow> Inr [])"

definition following_entry_ts ::
  "user_set \<times> timestamps \<Rightarrow> json \<Rightarrow> py_error + user_set \<times> timestamps" where
  "following_entry_ts st entry =
     (case py_get entry ''title'' JNull of
        Inl e \<Rightarrow> Inl e
      | Inr title \<Rightarrow>
          if truthy title then
            (case py_strip title of
               Inl e \<Rightarrow> Inl e
             | Inr name \<Rightarrow>
                 (case py_get entry ''string_list_data'' (JArr []) of
                    Inl e \<Rightarrow> Inl e
                  | Inr string_list \<Rightarrow>
                      if truthy string_list then
                        (case py_first string_list of
                           Inl e \<Rightarrow> Inl e
                         | Inr first \<Rightarrow>
                             (case py_get first ''timestamp'' JNull of
                                Inl e \<Rightarrow> Inl e
                              | Inr ts \<Rightarrow>
                                  Inr (set_add (fst st) (InstagramUser name),
                                       if truthy ts then (snd st)(lower name \<mapsto> ts)
                                       else snd st)))
                      else Inr (set_add (fst st) (InstagramUser name), snd st)))
          else Inr st)"

definition parse_following_with_timestamps ::
  "buffer \<Rightarrow> py_error + user_set \<times> timestamps" where
  "parse_following_with_timestamps content =
     (case content of
        Decoded data \<Rightarrow>
          (case py_get data ''relationships_following'' (JArr []) of
             Inl e \<Rightarrow> Inl e
           | Inr (JArr relationships) \<Rightarrow>
               for_each following_entry_ts relationships ([], Map.empty)
           | Inr _ \<Rightarrow> Inr ([], Map.empty))
      | Uncaught e \<Rightarrow> Inl e
      | _ \<Rightarrow> Inr ([], Map.empty))"

section \<open>The analysis\<close>

record AnalysisResult =
  not_following_back :: user_set
  not_followed_by_me :: user_set
  mutual :: user_set
  total_followers :: int
  total_following :: int

definition analyze :: "user_set \<Rightarrow> user_set \<Rightarrow> AnalysisResult" where
  "analyze followers following =
     \<lparr> not_following_back = difference following followers,
       not_followed_by_me = difference followers following,
       mutual = intersection followers following,
       total_followers = int (length followers),
       total_following = int (length following) \<rparr>"

section \<open>The export formats\<close>

text \<open>
  The shapes the docstrings of the parsers give. A followers export is a list of entries,
  each with a list \<^verbatim>\<open>string_list_data\<close> of items that carry \<^verbatim>\<open>value\<close> and \<^verbatim>\<open>timestamp\<close>; a
  following export is a dict whose \<^verbatim>\<open>relationships_following\<close> is a list of entries, each
  with a \<^verbatim>\<open>title\<close> and a list \<^verbatim>\<open>string_list_data\<close> of dicts that carry \<^verbatim>\<open>timestamp\<close>.
  Any of these fields may be missing, and other fields are not looked at.
\<close>

definition field :: "json \<Rightarrow> string \<Rightarrow> json option" where
  "field j k = (case j of JObj kvs \<Rightarrow> map_of kvs k | _ \<Rightarrow> None)"

fun is_object :: "json \<Rightarrow> bool" where
  "is_object (JObj kvs) = True"
| "is_object _ = False"

fun is_str :: "json \<Rightarrow> bool" where
  "is_str (JStr s) = True"
| "is_str _ = False"

fun is_int :: "json \<Rightarrow> bool" where
  "is_int (JInt n) = True"
| "is_int _ = False"

fun is_list_of :: "(json \<Rightarrow> bool) \<Rightarrow> json \<Rightarrow> bool" where
  "is_list_of P (JArr xs) = list_all P xs"
| "is_list_of P _ = False"

definition absent_or :: "(json \<Rightarrow> bool) \<Rightarrow> json option \<Rightarrow> bool" where
  "absent_or P x = (case x of None \<Rightarrow> True | Some v \<Rightarrow> P v)"

definition well_formed_item :: "json \<Rightarrow> bool" where
  "well_formed_item item =
     (is_object item \<and> absent_or is_str (field item ''value'')
      \<and> absent_or is_int (field item ''timestamp''))"

definition well_formed_entry :: "json \<Rightarrow> bool" where
  "well_formed_entry entry =
     (is_object entry
      \<and> absent_or (is_list_of well_formed_item) (field entry ''string_list_data''))"

definition well_formed_followers :: "json \<Rightarrow> bool" where
  "well_formed_followers data = is_list_of well_formed_entry data"

definition well_formed_sub :: "json \<Rightarrow> bool" where
  "well_formed_sub sub = (is_object sub \<and> absent_or is_int (field sub ''timestamp''))"

definition well_formed_relationship :: "json \<Rightarrow> bool" where
  "well_formed_relationship entry =
     (is_object entry \<and> absent_or is_str (field entry ''title'')
      \<and> absent_or (is_list_of well_formed_sub) (field entry ''string_list_data''))"

definition well_formed_following :: "json \<Rightarrow> bool" where
  "well_formed_following data =
     (is_object data
      \<and> absent_or (is_list_of well_formed_relationship)
           (field data ''relationships_following''))"

text \<open>Buffers that the parsers pass over: one on which \<^verbatim>\<open>decode\<close> raises
  \<^verbatim>\<open>UnicodeDecodeError\<close> or \<^verbatim>\<open>json.loads\<close> raises \<^verbatim>\<open>JSONDecodeError\<close>, a followers buffer
  that decodes to something else than a list, and a following buffer that decodes to a dict
  whose \<^verbatim>\<open>relationships_following\<close> is not a list.\<close>

definition undecodable :: "buffer \<Rightarrow> bool" where
  "undecodable b = (case b of InvalidUtf8 \<Rightarrow> True | InvalidJson \<Rightarrow> True | _ \<Rightarrow> False)"

definition not_a_list :: "buffer \<Rightarrow> bool" where
  "not_a_list b = (case b of Decoded (JArr xs) \<Rightarrow> False | Decoded _ \<Rightarrow> True | _ \<Rightarrow> False)"

definition relationships_not_a_list :: "buffer \<Rightarrow> bool" where
  "relationships_not_a_list b =
     (case b of
        Decoded data \<Rightarrow>
          (case field data ''relationships_following'' of
             Some (JArr xs) \<Rightarrow> False
           | Some _ \<Rightarrow> True
           | None \<Rightarrow> False)
      | _ \<Rightarrow> False)"

text \<open>The items of a followers export, the entries of a following export, and the
  timestamp field of the first element of an entry's \<^verbatim>\<open>string_list_data\<close>.\<close>

definition entry_items :: "json \<Rightarrow> json list" where
  "entry_items entry =
     (case field entry ''string_list_data'' of Some (JArr items) \<Rightarrow> items | _ \<Rightarrow> [])"

definition followers_items :: "json \<Rightarrow> json list" where
  "followers_items data =
     (case data of JArr entries \<Rightarrow> concat (map entry_items entries) | _ \<Rightarrow> [])"

definition following_entries :: "json \<Rightarrow> json list" where
  "following_entries data =
     (case field data ''relationships_following'' of Some (JArr rels) \<Rightarrow> rels | _ \<Rightarrow> [])"

definition first_timestamp :: "json \<Rightarrow> json option" where
  "first_timestamp entry =
     (case field entry ''string_list_data'' of
        Some (JArr (first # rest)) \<Rightarrow> field first ''timestamp''
      | _ \<Rightarrow> None)"

text \<open>The same export with every timestamp field that holds the integer 0 taken out.\<close>

definition drop_field :: "string \<Rightarrow> json \<Rightarrow> json" where
  "drop_field k j = (case j of JObj kvs \<Rightarrow> JObj (filter (\<lambda>kv. fst kv \<noteq> k) kvs) | _ \<Rightarrow> j)"

definition map_field :: "string \<Rightarrow> (json \<Rightarrow> json) \<Rightarrow> json \<Rightarrow> json" where
  "map_field k f j =
     (case j of
        JObj kvs \<Rightarrow> JObj (map (\<lambda>kv. if fst kv = k then (k, f (snd kv)) else kv) kvs)
      | _ \<Rightarrow> j)"

definition map_list :: "(json \<Rightarrow> json) \<Rightarrow> json \<Rightarrow> json" where
  "map_list f j = (case j of JArr xs \<Rightarrow> JArr (map f xs) | _ \<Rightarrow> j)"

definition map_buffer :: "(json \<Rightarrow> json) \<Rightarrow> buffer \<Rightarrow> buffer" where
  "map_buffer f b = (case b of Decoded j \<Rightarrow> Decoded (f j) | _ \<Rightarrow> b)"

definition zero_timestamp_absent :: "json \<Rightarrow> json" where
  "zero_timestamp_absent item =
     (if field item ''timestamp'' = Some (JInt 0) then drop_field ''timestamp'' item else item)"

definition followers_zero_absent :: "json \<Rightarrow> json" where
  "followers_zero_absent data =
     map_list (map_field ''string_list_data'' (map_list zero_timestamp_absent)) data"

definition following_zero_absent :: "json \<Rightarrow> json" where
  "following_zero_absent data =
     map_field ''relationships_following''
       (map_list (map_field ''string_list_data'' (map_list zero_timestamp_absent))) data"

section \<open>Sample data\<close>

text \<open>The sets of the fixtures \<^verbatim>\<open>sample_followers\<close> and \<^verbatim>\<open>sample_following\<close> of
  \<^verbatim>\<open>test_app.py\<close>, one follower with another casing.\<close>

definition sample_followers :: user_set where
  "sample_followers = [InstagramUser ''user1'', InstagramUser ''User2'', InstagramUser ''user3'']"

definition sample_following :: user_set where
  "sample_following = [InstagramUser ''user2'', InstagramUser ''user4'']"

text \<open>The decoded fixtures \<^verbatim>\<open>valid_followers_json\<close> and \<^verbatim>\<open>valid_following_json\<close>.\<close>

definition valid_followers_json :: json where
  "valid_followers_json = JArr
     [JObj [(''title'', JStr []), (''media_list_data'', JArr []),
            (''string_list_data'', JArr
               [JObj [(''href'', JStr ''https://www.instagram.com/user1''),
                      (''value'', JStr ''user1''), (''timestamp'', JInt 123)]])],
      JObj [(''title'', JStr []), (''media_list_data'', JArr []),
            (''string_list_data'', JArr
               [JObj [(''href'', JStr ''https://www.instagram.com/user2''),
                      (''value'', JStr ''user2''), (''timestamp'', JInt 124)]])],
      JObj [(''title'', JStr []), (''media_list_data'', JArr []),
            (''string_list_data'', JArr
               [JObj [(''href'', JStr ''https://www.instagram.com/user3''),
                      (''value'', JStr ''user3''), (''timestamp'', JInt 125)]])]]"

definition valid_following_json :: json where
  "valid_following_json = JObj
     [(''relationships_following'', JArr
        [JObj [(''title'', JStr ''user2''),
               (''string_list_data'', JArr
                  [JObj [(''href'', JStr ''https://www.instagram.com/_u/user2''),
                         (''timestamp'', JInt 123)]])],
         JObj [(''title'', JStr ''user4''),
               (''string_list_data'', JArr
                  [JObj [(''href'', JStr ''https://www.instagram.com/_u/user4''),
                         (''timestamp'', JInt 124)]])]])]"

text \<open>Exports with fields missing: an item without \<^verbatim>\<open>value\<close>, items and entries without
  \<^verbatim>\<open>timestamp\<close>, a timestamp 0, an entry without \<^verbatim>\<open>title\<close>, an empty \<^verbatim>\<open>string_list_data\<close>.\<close>

definition partial_followers_json :: json where
  "partial_followers_json = JArr
     [JObj [(''string_list_data'', JArr
               [JObj [(''value'', JStr ''amy''), (''timestamp'', JInt 5)],
                JObj [(''href'', JStr ''x''), (''timestamp'', JInt 6)],
                JObj [(''value'', JStr ''bob'')],
                JObj [(''value'', JStr ''cat''), (''timestamp'', JInt 0)]])]]"

definition partial_following_json :: json where
  "partial_following_json = JObj
     [(''relationships_following'', JArr
        [JObj [(''title'', JStr ''dan''),
               (''string_list_data'', JArr [JObj [(''timestamp'', JInt 7)],
                                            JObj [(''timestamp'', JInt 9)]])],
         JObj [(''title'', JStr ''eve''), (''string_list_data'', JArr [])],
         JObj [(''title'', JStr ''fay''),
               (''string_list_data'', JArr [JObj [(''href'', JStr ''x'')],
                                            JObj [(''timestamp'', JInt 3)]])],
         JObj [(''string_list_data'', JArr [JObj [(''timestamp'', JInt 4)]])],
         JObj [(''title'', JStr ''gus''),
               (''string_list_data'', JArr [JObj [(''timestamp'', JInt 0)]])]])]"

text \<open>Decoded buffers that do not have the expected shape: a followers export whose
  entry is a number, one whose \<^verbatim>\<open>string_list_data\<close> is \<^verbatim>\<open>null\<close>, a list in place of the
  following export, and exports whose only name is made of blanks.\<close>

definition number_entry_json :: json where
  "number_entry_json = JArr [JInt 1]"

definition null_list_json :: json where
  "null_list_json = JArr [JObj [(''string_list_data'', JNull)]]"

definition blank_followers_json :: json where
  "blank_followers_json =
     JArr [JObj [(''string_list_data'', JArr [JObj [(''value'', JStr [CHR '' '', CHR '' ''])]])]]"

definition blank_following_json :: json where
  "blank_following_json =
     JObj [(''relationships_following'', JArr [JObj [(''title'', JStr [CHR '' ''])]])]"

section \<open>Sets of users\<close>

lemma contains_iff: "contains us u \<longleftrightarrow> canonical u \<in> keys us"
  unfolding contains_def keys_def user_eq_def canonical_def list_ex_iff set_map image_iff
  by (auto simp: eq_commute)

lemma keys_filter: "keys (filter (\<lambda>u. canonical u \<in> S) us) = keys us \<inter> S"
  unfolding keys_def by (induction us) auto

lemma keys_filter_not: "keys (filter (\<lambda>u. canonical u \<notin> S) us) = keys us - S"
  unfolding keys_def by (induction us) auto

lemma keys_difference: "keys (difference a b) = keys a - keys b"
  unfolding difference_def contains_iff by (rule keys_filter_not)

lemma keys_intersection: "keys (intersection a b) = keys a \<inter> keys b"
  unfolding intersection_def contains_iff by (auto simp: keys_filter)

lemma valid_set_filter: "valid_set us \<Longrightarrow> valid_set (filter P us)"
  unfolding valid_set_def by (simp add: distinct_map_filter)

lemma valid_set_difference: "valid_set a \<Longrightarrow> valid_set (difference a b)"
  unfolding difference_def by (rule valid_set_filter)

lemma valid_set_intersection:
  "valid_set a \<Longrightarrow> valid_set b \<Longrightarrow> valid_set (intersection a b)"
  unfolding intersection_def by (simp add: valid_set_filter)

lemma card_keys: "valid_set us \<Longrightarrow> card (keys us) = length us"
  unfolding valid_set_def keys_def by (metis distinct_card length_map)

lemma keys_set_add: "keys (set_add us u) = insert (canonical u) (keys us)"
  by (auto simp: set_add_def contains_iff keys_def)

lemma set_add_absorb: "canonical u \<in> keys us \<Longrightarrow> set_add us u = us"
  by (simp add: set_add_def contains_iff)

lemma valid_set_add: "valid_set us \<Longrightarrow> valid_set (set_add us u)"
  by (auto simp: set_add_def contains_iff valid_set_def keys_def)

lemma set_set_add: "set (set_add us u) \<subseteq> insert u (set us)"
  by (auto simp: set_add_def)

lemma set_add_cases: "u \<in> set (set_add us v) \<Longrightarrow> u = v \<or> u \<in> set us"
  by (auto simp: set_add_def split: if_splits)

lemma lower_samples:
  "lower ''user1'' = ''user1''" "lower ''User2'' = ''user2''" "lower ''user2'' = ''user2''"
  "lower ''user3'' = ''user3''" "lower ''user4'' = ''user4''"
  by code_simp+

section \<open>Properties of the analysis\<close>

text \<open>
  C1. For two sets of users \<open>F\<close> (followers) and \<open>G\<close> (following), read through the canonical
  keys of their members, \<open>analyze F G\<close> has \<open>mutual = F \<inter> G\<close>, \<open>not_following_back = G - F\<close>,
  \<open>not_followed_by_me = F - G\<close>, \<open>total_followers = |F|\<close> and \<open>total_following = |G|\<close>; the
  three results are again sets with no two equal members.
\<close>

theorem analyze_sets:
  assumes "valid_set F" and "valid_set G"
  shows "keys (mutual (analyze F G)) = keys F \<inter> keys G
       \<and> keys (not_following_back (analyze F G)) = keys G - keys F
       \<and> keys (not_followed_by_me (analyze F G)) = keys F - keys G
       \<and> total_followers (analyze F G) = int (card (keys F))
       \<and> total_following (analyze F G) = int (card (keys G))
       \<and> valid_set (mutual (analyze F G))
       \<and> valid_set (not_following_back (analyze F G))
       \<and> valid_set (not_followed_by_me (analyze F G))"
  using assms
  by (simp add: analyze_def keys_intersection keys_difference card_keys
      valid_set_difference valid_set_intersection)

theorem analyze_sets_witness:
  "valid_set sample_followers \<and> valid_set sample_following
   \<and> keys (mutual (analyze sample_followers sample_following)) = {''user2''}
   \<and> keys (not_following_back (analyze sample_followers sample_following)) = {''user4''}
   \<and> keys (not_followed_by_me (analyze sample_followers sample_following)) = {''user1'', ''user3''}
   \<and> total_followers (analyze sample_followers sample_following) = 3
   \<and> total_following (analyze sample_followers sample_following) = 2"
proof -
  have F: "valid_set sample_followers" and G: "valid_set sample_following"
    by (simp_all add: valid_set_def sample_followers_def sample_following_def
        canonical_def lower_samples)
  have kF: "keys sample_followers = {''user1'', ''user2'', ''user3''}"
    and kG: "keys sample_following = {''user2'', ''user4''}"
    by (simp_all add: keys_def sample_followers_def sample_following_def
        canonical_def lower_samples)
  have c: "card (keys sample_followers) = 3" "card (keys sample_following) = 2"
    by (simp_all add: kF kG)
  from analyze_sets [OF F G] show ?thesis
    unfolding c unfolding kF kG using F G by auto
qed

text \<open>
  C4. The three result sets of \<open>analyze F G\<close> are pairwise disjoint, \<open>mutual\<close> together with
  \<open>not_following_back\<close> is the following set \<open>G\<close>, and \<open>mutual\<close> together with
  \<open>not_followed_by_me\<close> is the followers set \<open>F\<close>.
\<close>

theorem analyze_partition:
  "keys (mutual (analyze F G)) \<inter> keys (not_following_back (analyze F G)) = {}
   \<and> keys (mutual (analyze F G)) \<inter> keys (not_followed_by_me (analyze F G)) = {}
   \<and> keys (not_following_back (analyze F G)) \<inter> keys (not_followed_by_me (analyze F G)) = {}
   \<and> keys (mutual (analyze F G)) \<union> keys (not_following_back (analyze F G)) = keys G
   \<and> keys (mutual (analyze F G)) \<union> keys (not_followed_by_me (analyze F G)) = keys F"
  by (auto simp: analyze_def keys_intersection keys_difference)

theorem analyze_partition_witness:
  "keys (mutual (analyze sample_followers sample_following))
     \<union> keys (not_following_back (analyze sample_followers sample_following))
   = {''user2'', ''user4''}
   \<and> keys (mutual (analyze sample_followers sample_following))
     \<union> keys (not_followed_by_me (analyze sample_followers sample_following))
   = {''user1'', ''user2'', ''user3''}"
proof -
  have kF: "keys sample_followers = {''user1'', ''user2'', ''user3''}"
    and kG: "keys sample_following = {''user2'', ''user4''}"
    by (simp_all add: keys_def sample_followers_def sample_following_def
        canonical_def lower_samples)
  from analyze_partition [of sample_followers sample_following] show ?thesis
    unfolding kF kG by simp
qed

section \<open>Loops\<close>

lemmas parser_defs =
  parse_followers_def followers_file_def followers_entry_def followers_item_def
  parse_followers_with_timestamps_def followers_file_ts_def followers_entry_ts_def
  followers_item_ts_def parse_following_def following_entry_def
  parse_following_with_timestamps_def following_entry_ts_def

lemmas str_defs = lower_def lower_char_def strip_def isspace_def

lemmas set_defs = set_add_def contains_def user_eq_def

lemma for_each_append:
  "for_each body (xs @ ys) s =
     (case for_each body xs s of Inl e \<Rightarrow> Inl e | Inr s' \<Rightarrow> for_each body ys s')"
  by (induction xs arbitrary: s) (auto split: sum.splits)

lemma for_each_fst:
  assumes "\<And>s x. f (fst s) x = map_sum id fst (g s x)"
  shows "for_each f xs (fst s) = map_sum id fst (for_each g xs s)"
proof (induction xs arbitrary: s)
  case Nil
  show ?case by simp
next
  case (Cons x xs)
  show ?case
  proof (cases "g s x")
    case (Inl e)
    then show ?thesis by (simp add: assms)
  next
    case (Inr t)
    then show ?thesis using Cons.IH [of t] by (simp add: assms)
  qed
qed

lemma for_each_cong:
  "(\<And>s x. x \<in> set xs \<Longrightarrow> f s x = g s x) \<Longrightarrow> for_each f xs s = for_each g xs s"
  by (induction xs arbitrary: s) (auto split: sum.splits)

lemma for_each_concat:
  "for_each (\<lambda>s x. for_each f (g x) s) xs s = for_each f (concat (map g xs)) s"
  by (induction xs arbitrary: s) (auto simp: for_each_append split: sum.splits)

lemma for_each_ok:
  "(\<And>s x. x \<in> set xs \<Longrightarrow> \<exists>s'. f s x = Inr s') \<Longrightarrow> \<exists>s'. for_each f xs s = Inr s'"
proof (induction xs arbitrary: s)
  case Nil
  show ?case by simp
next
  case (Cons x xs)
  from Cons.prems [of x s] obtain s1 where s1: "f s x = Inr s1" by auto
  from Cons.IH [of s1] Cons.prems obtain s' where "for_each f xs s1 = Inr s'" by auto
  with s1 show ?case by simp
qed

lemma for_each_invariant:
  assumes "for_each f xs s = Inr s'" and "P s"
    and "\<And>s x s'. x \<in> set xs \<Longrightarrow> P s \<Longrightarrow> f s x = Inr s' \<Longrightarrow> P s'"
  shows "P s'"
  using assms
proof (induction xs arbitrary: s)
  case Nil
  then show ?case by simp
next
  case (Cons x xs)
  from Cons.prems(1) obtain s1 where s1: "f s x = Inr s1" and rest: "for_each f xs s1 = Inr s'"
    by (auto split: sum.splits)
  have "P s1" using Cons.prems(2,3) s1 by auto
  then show ?case using Cons.IH [OF rest] Cons.prems(3) by auto
qed

lemma for_each_covers:
  assumes "for_each f xs s = Inr s'"
    and step: "\<And>s x s'. x \<in> set xs \<Longrightarrow> f s x = Inr s' \<Longrightarrow> Q x s'"
    and mono: "\<And>s y s' x. y \<in> set xs \<Longrightarrow> f s y = Inr s' \<Longrightarrow> Q x s \<Longrightarrow> Q x s'"
  shows "\<forall>x\<in>set xs. Q x s'"
  using assms
proof (induction xs arbitrary: s)
  case Nil
  then show ?case by simp
next
  case (Cons x xs)
  from Cons.prems(1) obtain s1 where s1: "f s x = Inr s1" and rest: "for_each f xs s1 = Inr s'"
    by (auto split: sum.splits)
  have "Q x s1" using Cons.prems(2) [of x s s1] s1 by simp
  then have "Q x s'"
  proof (rule for_each_invariant [OF rest])
    show "Q x t'" if "y \<in> set xs" "Q x t" "f t y = Inr t'" for t y t'
      using Cons.prems(3) [of y t t' x] that by simp
  qed
  moreover have "\<forall>y\<in>set xs. Q y s'"
  proof (rule Cons.IH [OF rest])
    show "Q y t'" if "y \<in> set xs" "f t y = Inr t'" for t y t'
      using Cons.prems(2) [of y t t'] that by simp
    show "Q z t'" if "y \<in> set xs" "f t y = Inr t'" "Q z t" for t y t' z
      using Cons.prems(3) [of y t t' z] that by simp
  qed
  ultimately show ?case by simp
qed

section \<open>The identity\<close>

text \<open>
  C3, as amended. For all strings \<open>a\<close> and \<open>b\<close> that are equal after lower-casing, the
  identity built from \<open>a\<close> equals the one built from \<open>b\<close>, both hash identically, and a set
  that receives both holds one member, the first. The class does not trim: the parsers
  trim before they build an identity, which the witness instantiates.
\<close>

theorem identity_equal_after_lower:
  assumes "lower a = lower b"
  shows "user_eq (InstagramUser a) (InstagramUser b)
       \<and> user_hash str_hash (InstagramUser a) = user_hash str_hash (InstagramUser b)
       \<and> set_add (set_add [] (InstagramUser a)) (InstagramUser b) = [InstagramUser a]"
  using assms by (simp add: user_eq_def user_hash_def set_add_def contains_def)

lemma lower_TestUser: "lower (strip ''  TestUser '') = lower (strip ''testuser'')"
  by code_simp

theorem identity_equal_after_lower_witness:
  "lower (strip ''  TestUser '') = lower (strip ''testuser'')
   \<and> user_eq (InstagramUser (strip ''  TestUser '')) (InstagramUser (strip ''testuser''))
   \<and> set_add (set_add [] (InstagramUser (strip ''  TestUser '')))
        (InstagramUser (strip ''testuser'')) = [InstagramUser (strip ''  TestUser '')]"
  using identity_equal_after_lower [OF lower_TestUser] lower_TestUser by simp

text \<open>
  C3 as stated fails: \<^verbatim>\<open>" user1"\<close> and \<^verbatim>\<open>"user1"\<close> are equal after trimming and
  lower-casing, but the identities built from them are not equal and a set keeps both.
\<close>

theorem identity_untrimmed_counterexample:
  "lower (strip '' user1'') = lower (strip ''user1'')
   \<and> \<not> user_eq (InstagramUser '' user1'') (InstagramUser ''user1'')
   \<and> set_add (set_add [] (InstagramUser '' user1'')) (InstagramUser ''user1'')
       = [InstagramUser '' user1'', InstagramUser ''user1'']"
  by (simp add: str_defs set_defs)

section \<open>The two followers parsers\<close>

lemma followers_item_fst:
  "followers_item (fst st) item = map_sum id fst (followers_item_ts st item)"
  by (cases item) (simp_all add: followers_item_def followers_item_ts_def split: sum.splits)

lemma followers_entry_fst:
  "followers_entry (fst st) entry = map_sum id fst (followers_entry_ts st entry)"
  unfolding followers_entry_def followers_entry_ts_def
  by (simp add: for_each_fst [of followers_item followers_item_ts, OF followers_item_fst]
      split: sum.splits)

lemma followers_file_fst:
  "followers_file (fst st) content = map_sum id fst (followers_file_ts st content)"
  unfolding followers_file_def followers_file_ts_def
  by (simp add: for_each_fst [of followers_entry followers_entry_ts, OF followers_entry_fst]
      split: buffer.splits json.splits)

lemma parse_followers_fst:
  "parse_followers files = map_sum id fst (parse_followers_with_timestamps files)"
  unfolding parse_followers_def parse_followers_with_timestamps_def
  using for_each_fst [of followers_file followers_file_ts files "([], Map.empty)",
      OF followers_file_fst]
  by simp

text \<open>
  C8. For every list of buffers, \<open>parse_followers\<close> returns the first component of what
  \<open>parse_followers_with_timestamps\<close> returns on the same buffers, and raises when it raises.
\<close>

theorem parse_followers_refines:
  "parse_followers files =
     (case parse_followers_with_timestamps files of
        Inl e \<Rightarrow> Inl e
      | Inr (users, ts) \<Rightarrow> Inr users)"
  by (simp add: parse_followers_fst split: sum.splits prod.splits)

lemma valid_followers_parsed:
  "parse_followers_with_timestamps [Decoded valid_followers_json] =
     Inr ([InstagramUser ''user1'', InstagramUser ''user2'', InstagramUser ''user3''],
          [''user1'' \<mapsto> JInt 123, ''user2'' \<mapsto> JInt 124, ''user3'' \<mapsto> JInt 125])"
  by (simp add: parser_defs valid_followers_json_def str_defs set_defs)

theorem parse_followers_refines_witness:
  "parse_followers [Decoded valid_followers_json] =
     Inr [InstagramUser ''user1'', InstagramUser ''user2'', InstagramUser ''user3'']"
  using parse_followers_refines [of "[Decoded valid_followers_json]"]
  by (simp add: valid_followers_parsed)

section \<open>Buffers outside the expected shape\<close>

lemma for_each_skip:
  assumes "\<And>s. f s b = Inr s"
  shows "for_each f (xs @ b # ys) s = for_each f (xs @ ys) s"
  by (simp add: for_each_append assms split: sum.splits)

lemma followers_file_skips:
  assumes "undecodable b \<or> not_a_list b"
  shows "followers_file users b = Inr users" and "followers_file_ts st b = Inr st"
  using assms
  by (auto simp: undecodable_def not_a_list_def followers_file_def followers_file_ts_def
      split: buffer.splits json.splits)

lemma parse_following_skips:
  assumes "undecodable c \<or> relationships_not_a_list c"
  shows "parse_following c = Inr []"
    and "parse_following_with_timestamps c = Inr ([], Map.empty)"
proof -
  have "parse_following c = Inr [] \<and> parse_following_with_timestamps c = Inr ([], Map.empty)"
  proof (cases c)
    case (Decoded data)
    with assms obtain kvs r where d: "data = JObj kvs"
      and r: "map_of kvs ''relationships_following'' = Some r" and nl: "\<forall>xs. r \<noteq> JArr xs"
      by (cases data)
        (auto simp: undecodable_def relationships_not_a_list_def field_def
          split: option.splits json.splits)
    from nl show ?thesis
      by (cases r)
        (simp_all add: Decoded d r parse_following_def parse_following_with_timestamps_def)
  qed (use assms in \<open>simp_all add: parse_following_def parse_following_with_timestamps_def
         undecodable_def relationships_not_a_list_def\<close>)
  then show "parse_following c = Inr []"
    and "parse_following_with_timestamps c = Inr ([], Map.empty)"
    by simp_all
qed

text \<open>
  C2, as amended. A buffer on which \<^verbatim>\<open>decode\<close> raises \<^verbatim>\<open>UnicodeDecodeError\<close> or \<^verbatim>\<open>json.loads\<close>
  raises \<^verbatim>\<open>JSONDecodeError\<close> never makes a parser raise and contributes nothing: the
  followers parsers return what they return on the other buffers, the following parsers
  return the empty set and the empty timestamp map.
  The same holds for a followers buffer that decodes to something else than a list, and for
  a following buffer whose \<^verbatim>\<open>relationships_following\<close> is not a list.
\<close>

theorem parsers_skip_buffer:
  "(undecodable b \<or> not_a_list b \<longrightarrow>
      parse_followers (xs @ b # ys) = parse_followers (xs @ ys)
      \<and> parse_followers_with_timestamps (xs @ b # ys)
          = parse_followers_with_timestamps (xs @ ys)
      \<and> parse_followers [b] = Inr []
      \<and> parse_followers_with_timestamps [b] = Inr ([], Map.empty))
   \<and> (undecodable c \<or> relationships_not_a_list c \<longrightarrow>
      parse_following c = Inr []
      \<and> parse_following_with_timestamps c = Inr ([], Map.empty))"
proof (intro conjI impI)
  assume b: "undecodable b \<or> not_a_list b"
  show "parse_followers (xs @ b # ys) = parse_followers (xs @ ys)"
    unfolding parse_followers_def
    by (rule for_each_skip) (rule followers_file_skips(1) [OF b])
  show "parse_followers_with_timestamps (xs @ b # ys)
          = parse_followers_with_timestamps (xs @ ys)"
    unfolding parse_followers_with_timestamps_def
    by (rule for_each_skip) (rule followers_file_skips(2) [OF b])
  show "parse_followers [b] = Inr []"
    by (simp add: parse_followers_def followers_file_skips(1) [OF b])
  show "parse_followers_with_timestamps [b] = Inr ([], Map.empty)"
    by (simp add: parse_followers_with_timestamps_def followers_file_skips(2) [OF b])
next
  assume c: "undecodable c \<or> relationships_not_a_list c"
  show "parse_following c = Inr []"
    by (rule parse_following_skips(1) [OF c])
  show "parse_following_with_timestamps c = Inr ([], Map.empty)"
    by (rule parse_following_skips(2) [OF c])
qed

theorem parsers_skip_buffer_witness:
  "undecodable InvalidJson \<and> not_a_list (Decoded (JObj []))
   \<and> relationships_not_a_list (Decoded (JObj [(''relationships_following'', JNull)]))
   \<and> parse_followers [Decoded valid_followers_json, InvalidJson]
       = Inr [InstagramUser ''user1'', InstagramUser ''user2'', InstagramUser ''user3'']
   \<and> parse_followers [Decoded (JObj [])] = Inr []
   \<and> parse_following InvalidUtf8 = Inr []
   \<and> parse_following_with_timestamps
         (Decoded (JObj [(''relationships_following'', JNull)])) = Inr ([], Map.empty)"
proof -
  have u: "undecodable InvalidJson" "undecodable InvalidUtf8"
    and n: "not_a_list (Decoded (JObj []))"
    and r: "relationships_not_a_list (Decoded (JObj [(''relationships_following'', JNull)]))"
    by (simp_all add: undecodable_def not_a_list_def relationships_not_a_list_def field_def)
  have v: "parse_followers [Decoded valid_followers_json]
             = Inr [InstagramUser ''user1'', InstagramUser ''user2'', InstagramUser ''user3'']"
    by (simp add: parse_followers_fst valid_followers_parsed)
  have e: "parse_followers [] = Inr []"
    by (simp add: parse_followers_def)
  from parsers_skip_buffer [of InvalidJson "[Decoded valid_followers_json]" "[]" InvalidUtf8]
    parsers_skip_buffer [of "Decoded (JObj [])" "[]" "[]"
      "Decoded (JObj [(''relationships_following'', JNull)])"]
    u n r v e
  show ?thesis by simp
qed

text \<open>
  C2 as stated fails: a decoded value of another unexpected shape makes the parser raise.
  A list or the float \<^verbatim>\<open>NaN\<close> in place of the following export, a followers entry that is
  not a dict and a \<^verbatim>\<open>string_list_data\<close> that is \<^verbatim>\<open>null\<close> raise \<^verbatim>\<open>AttributeError\<close> or
  \<^verbatim>\<open>TypeError\<close>, which the parsers do not catch; so does a buffer on which \<^verbatim>\<open>json.loads\<close>
  itself raises \<^verbatim>\<open>RecursionError\<close>.
\<close>

theorem parsers_raise_on_unexpected_shape:
  "parse_following (Decoded (JArr [])) = Inl AttributeError
   \<and> parse_following_with_timestamps (Decoded (JArr [])) = Inl AttributeError
   \<and> parse_followers [Decoded number_entry_json] = Inl AttributeError
   \<and> parse_followers_with_timestamps [Decoded number_entry_json] = Inl AttributeError
   \<and> parse_followers [Decoded null_list_json] = Inl TypeError
   \<and> parse_followers_with_timestamps [Decoded null_list_json] = Inl TypeError
   \<and> parse_following (Decoded (JFloat NaN)) = Inl AttributeError
   \<and> parse_following_with_timestamps (Decoded (JFloat NaN)) = Inl AttributeError
   \<and> parse_followers [Uncaught RecursionError] = Inl RecursionError
   \<and> parse_followers_with_timestamps [Uncaught RecursionError] = Inl RecursionError
   \<and> parse_following (Uncaught RecursionError) = Inl RecursionError
   \<and> parse_following_with_timestamps (Uncaught RecursionError) = Inl RecursionError"
  by (simp add: parser_defs number_entry_json_def null_list_json_def)

text \<open>
  C9. The claim is that no parser returns an identity with an empty handle. On the code a
  \<^verbatim>\<open>value\<close> or \<^verbatim>\<open>title\<close> made of blanks passes the test for a non-empty string and is
  trimmed to the empty handle afterwards.
\<close>

theorem parsers_admit_blank_handle:
  "parse_followers [Decoded blank_followers_json] = Inr [InstagramUser []]
   \<and> parse_followers_with_timestamps [Decoded blank_followers_json]
       = Inr ([InstagramUser []], Map.empty)
   \<and> parse_following (Decoded blank_following_json) = Inr [InstagramUser []]
   \<and> parse_following_with_timestamps (Decoded blank_following_json)
       = Inr ([InstagramUser []], Map.empty)"
  by (simp add: parser_defs blank_followers_json_def blank_following_json_def str_defs set_defs)

section \<open>Well-formed followers exports\<close>

lemma is_objectE: "is_object x \<Longrightarrow> \<exists>kvs. x = JObj kvs"
  by (cases x) auto

lemma is_strE: "is_str x \<Longrightarrow> \<exists>v. x = JStr v"
  by (cases x) auto

lemma is_intE: "is_int x \<Longrightarrow> \<exists>n. x = JInt n"
  by (cases x) auto

lemma is_list_ofE: "is_list_of P x \<Longrightarrow> \<exists>xs. x = JArr xs \<and> list_all P xs"
  by (cases x) auto

lemma well_formed_entry_items:
  "well_formed_entry entry \<Longrightarrow> x \<in> set (entry_items entry) \<Longrightarrow> well_formed_item x"
  by (auto simp: well_formed_entry_def entry_items_def absent_or_def list_all_iff
      split: option.splits json.splits list.splits)

lemma followers_entry_ts_wf:
  assumes "well_formed_entry entry"
  shows "followers_entry_ts st entry = for_each followers_item_ts (entry_items entry) st"
proof -
  from assms obtain kvs where e: "entry = JObj kvs"
    by (auto simp: well_formed_entry_def dest: is_objectE)
  show ?thesis
  proof (cases "map_of kvs ''string_list_data''")
    case None
    then show ?thesis
      by (simp add: e followers_entry_ts_def entry_items_def field_def)
  next
    case (Some l)
    with assms e obtain items where "l = JArr items"
      by (auto simp: well_formed_entry_def field_def absent_or_def dest: is_list_ofE)
    with Some show ?thesis
      by (simp add: e followers_entry_ts_def entry_items_def field_def)
  qed
qed

lemma followers_file_ts_wf:
  assumes "well_formed_followers data"
  shows "followers_file_ts st (Decoded data) =
           for_each followers_item_ts (followers_items data) st"
proof -
  from assms obtain entries where d: "data = JArr entries"
    and wf: "list_all well_formed_entry entries"
    by (auto simp: well_formed_followers_def dest: is_list_ofE)
  have "followers_file_ts st (Decoded data) = for_each followers_entry_ts entries st"
    by (simp add: d followers_file_ts_def)
  also have "\<dots> = for_each (\<lambda>s e. for_each followers_item_ts (entry_items e) s) entries st"
    using wf by (intro for_each_cong followers_entry_ts_wf) (simp add: list_all_iff)
  also have "\<dots> = for_each followers_item_ts (concat (map entry_items entries)) st"
    by (rule for_each_concat)
  finally show ?thesis by (simp add: d followers_items_def)
qed

lemma well_formed_followers_items:
  "well_formed_followers data \<Longrightarrow> x \<in> set (followers_items data) \<Longrightarrow> well_formed_item x"
  by (auto simp: well_formed_followers_def followers_items_def list_all_iff
      dest!: is_list_ofE; blast intro: well_formed_entry_items)

lemma followers_item_ts_ok:
  assumes "well_formed_item item"
  shows "\<exists>st'. followers_item_ts st item = Inr st'"
proof -
  from assms obtain kvs where i: "item = JObj kvs"
    by (auto simp: well_formed_item_def dest: is_objectE)
  from assms have "map_of kvs ''value'' = None \<or> (\<exists>v. map_of kvs ''value'' = Some (JStr v))"
    by (auto simp: i well_formed_item_def field_def absent_or_def
        split: option.splits dest: is_strE)
  then show ?thesis
    by (auto simp: i followers_item_ts_def)
qed

text \<open>What one item can add to the users and to the timestamps.\<close>

lemma followers_item_ts_users:
  assumes "followers_item_ts st item = Inr st'" and "u \<in> set (fst st')"
  shows "u \<in> set (fst st) \<or> (\<exists>v. field item ''value'' = Some (JStr v) \<and> username u = strip v)"
proof (cases item)
  case (JObj kvs)
  show ?thesis
  proof (cases "map_of kvs ''value''")
    case None
    with assms JObj show ?thesis by (simp add: followers_item_ts_def)
  next
    case (Some val)
    with assms JObj show ?thesis
      by (cases val)
        (auto simp: followers_item_ts_def field_def split: if_splits dest!: set_add_cases)
  qed
qed (use assms in \<open>simp_all add: followers_item_ts_def\<close>)

lemma followers_item_ts_stamp:
  assumes "followers_item_ts st item = Inr st'" and "snd st' k = Some t"
  shows "snd st k = Some t \<or>
         (t \<noteq> JInt 0 \<and> (\<exists>v. field item ''value'' = Some (JStr v) \<and> k = lower (strip v)
            \<and> field item ''timestamp'' = Some t))"
proof (cases item)
  case (JObj kvs)
  show ?thesis
  proof (cases "map_of kvs ''value''")
    case None
    with assms JObj show ?thesis by (simp add: followers_item_ts_def)
  next
    case (Some val)
    with assms JObj show ?thesis
      by (cases val)
        (auto simp: followers_item_ts_def field_def split: if_splits option.splits)
  qed
qed (use assms in \<open>simp_all add: followers_item_ts_def\<close>)

lemma followers_item_ts_grows:
  assumes "followers_item_ts st item = Inr st'"
  shows "keys (fst st) \<subseteq> keys (fst st') \<and> dom (snd st) \<subseteq> dom (snd st')"
proof (cases item)
  case (JObj kvs)
  show ?thesis
  proof (cases "map_of kvs ''value''")
    case None
    with assms JObj show ?thesis by (simp add: followers_item_ts_def)
  next
    case (Some val)
    with assms JObj show ?thesis
      by (cases val)
        (auto simp: followers_item_ts_def keys_set_add split: if_splits option.splits)
  qed
qed (use assms in \<open>simp_all add: followers_item_ts_def\<close>)

lemma followers_item_ts_adds:
  assumes "followers_item_ts st item = Inr st'"
    and "field item ''value'' = Some (JStr v)" and "v \<noteq> []"
  shows "lower (strip v) \<in> keys (fst st')"
    and "field item ''timestamp'' = Some (JInt n) \<Longrightarrow> n \<noteq> 0 \<Longrightarrow> lower (strip v) \<in> dom (snd st')"
  using assms
  by (cases item; auto simp: followers_item_ts_def field_def keys_set_add canonical_def)+

lemma followers_loop:
  assumes run: "for_each followers_item_ts items ([], Map.empty) = Inr (users, ts)"
  shows "\<forall>u\<in>set users. \<exists>item\<in>set items. \<exists>v.
           field item ''value'' = Some (JStr v) \<and> username u = strip v"
    and "\<forall>item\<in>set items. \<forall>v. field item ''value'' = Some (JStr v) \<longrightarrow> v \<noteq> []
           \<longrightarrow> lower (strip v) \<in> keys users"
    and "\<forall>k t. ts k = Some t \<longrightarrow> t \<noteq> JInt 0 \<and> (\<exists>item\<in>set items. \<exists>v.
           field item ''value'' = Some (JStr v) \<and> k = lower (strip v)
           \<and> field item ''timestamp'' = Some t)"
    and "\<forall>item\<in>set items. \<forall>v n. field item ''value'' = Some (JStr v) \<longrightarrow> v \<noteq> []
           \<longrightarrow> field item ''timestamp'' = Some (JInt n) \<longrightarrow> n \<noteq> 0
           \<longrightarrow> lower (strip v) \<in> dom ts"
proof -
  let ?A = "\<lambda>st. \<forall>u\<in>set (fst st). \<exists>item\<in>set items. \<exists>v.
              field item ''value'' = Some (JStr v) \<and> username u = strip v"
  have "?A (users, ts)"
  proof (rule for_each_invariant [OF run, of ?A])
    show "?A ([], Map.empty)" by simp
    show "?A st'" if "x \<in> set items" "?A st" "followers_item_ts st x = Inr st'" for st x st'
      using that followers_item_ts_users [of st x st'] by blast
  qed
  then show "\<forall>u\<in>set users. \<exists>item\<in>set items. \<exists>v.
           field item ''value'' = Some (JStr v) \<and> username u = strip v"
    by simp
  let ?C = "\<lambda>st. \<forall>k t. snd st k = Some t \<longrightarrow> t \<noteq> JInt 0 \<and> (\<exists>item\<in>set items. \<exists>v.
              field item ''value'' = Some (JStr v) \<and> k = lower (strip v)
              \<and> field item ''timestamp'' = Some t)"
  have "?C (users, ts)"
  proof (rule for_each_invariant [OF run, of ?C])
    show "?C ([], Map.empty)" by simp
    show "?C st'" if "x \<in> set items" "?C st" "followers_item_ts st x = Inr st'" for st x st'
      using that followers_item_ts_stamp [of st x st'] by blast
  qed
  then show "\<forall>k t. ts k = Some t \<longrightarrow> t \<noteq> JInt 0 \<and> (\<exists>item\<in>set items. \<exists>v.
           field item ''value'' = Some (JStr v) \<and> k = lower (strip v)
           \<and> field item ''timestamp'' = Some t)"
    by simp
  let ?B = "\<lambda>item st. \<forall>v. field item ''value'' = Some (JStr v) \<longrightarrow> v \<noteq> []
              \<longrightarrow> lower (strip v) \<in> keys (fst st)"
  have "\<forall>item\<in>set items. ?B item (users, ts)"
  proof (rule for_each_covers [OF run, of ?B])
    show "?B x st'" if "x \<in> set items" "followers_item_ts st x = Inr st'" for st x st'
      using that followers_item_ts_adds(1) [of st x st'] by blast
    show "?B x st'" if "y \<in> set items" "followers_item_ts st y = Inr st'" "?B x st"
      for st y st' x
      using that followers_item_ts_grows [of st y st'] by blast
  qed
  then show "\<forall>item\<in>set items. \<forall>v. field item ''value'' = Some (JStr v) \<longrightarrow> v \<noteq> []
           \<longrightarrow> lower (strip v) \<in> keys users"
    by simp
  let ?D = "\<lambda>item st. \<forall>v n. field item ''value'' = Some (JStr v) \<longrightarrow> v \<noteq> []
              \<longrightarrow> field item ''timestamp'' = Some (JInt n) \<longrightarrow> n \<noteq> 0
              \<longrightarrow> lower (strip v) \<in> dom (snd st)"
  have "\<forall>item\<in>set items. ?D item (users, ts)"
  proof (rule for_each_covers [OF run, of ?D])
    show "?D x st'" if "x \<in> set items" "followers_item_ts st x = Inr st'" for st x st'
      using that followers_item_ts_adds(2) [of st x st'] by blast
    show "?D x st'" if "y \<in> set items" "followers_item_ts st y = Inr st'" "?D x st"
      for st y st' x
      using that followers_item_ts_grows [of st y st'] by blast
  qed
  then show "\<forall>item\<in>set items. \<forall>v n. field item ''value'' = Some (JStr v) \<longrightarrow> v \<noteq> []
           \<longrightarrow> field item ''timestamp'' = Some (JInt n) \<longrightarrow> n \<noteq> 0
           \<longrightarrow> lower (strip v) \<in> dom ts"
    by simp
qed

lemma parse_followers_with_timestamps_single:
  "parse_followers_with_timestamps [b] = followers_file_ts ([], Map.empty) b"
  by (simp add: parse_followers_with_timestamps_def split: sum.splits)

lemma parse_followers_with_timestamps_wf:
  assumes "well_formed_followers data"
  shows "\<exists>users ts. parse_followers_with_timestamps [Decoded data] = Inr (users, ts)
           \<and> for_each followers_item_ts (followers_items data) ([], Map.empty) = Inr (users, ts)"
proof -
  have "\<exists>st'. for_each followers_item_ts (followers_items data) ([], Map.empty) = Inr st'"
    using well_formed_followers_items [OF assms]
    by (intro for_each_ok followers_item_ts_ok)
  then show ?thesis
    by (auto simp: parse_followers_with_timestamps_single followers_file_ts_wf [OF assms])
qed

text \<open>
  C5. The fixture with the three entries \<^verbatim>\<open>user1\<close>, \<^verbatim>\<open>user2\<close>, \<^verbatim>\<open>user3\<close> and the
  timestamps 123, 124, 125 gives a set of three identities and the timestamp map of the
  claim. For every well-formed followers buffer the parser returns; every identity it
  returns is the trimmed \<^verbatim>\<open>value\<close> of an item that has that field, and every item with a
  non-empty \<^verbatim>\<open>value\<close> is represented; every key of the timestamp map comes with the
  \<^verbatim>\<open>timestamp\<close> field of an item of that name, is never 0, and every item with a non-zero
  timestamp has its key in the map. So an item without \<^verbatim>\<open>value\<close> adds nothing, and an
  item without \<^verbatim>\<open>timestamp\<close> adds no key.
\<close>

theorem parse_followers_with_timestamps_fields:
  "parse_followers_with_timestamps [Decoded valid_followers_json] =
     Inr ([InstagramUser ''user1'', InstagramUser ''user2'', InstagramUser ''user3''],
          [''user1'' \<mapsto> JInt 123, ''user2'' \<mapsto> JInt 124, ''user3'' \<mapsto> JInt 125])
   \<and> (well_formed_followers data \<longrightarrow>
       (\<exists>users ts. parse_followers_with_timestamps [Decoded data] = Inr (users, ts)
          \<and> (\<forall>u\<in>set users. \<exists>item\<in>set (followers_items data). \<exists>v.
                field item ''value'' = Some (JStr v) \<and> username u = strip v)
          \<and> (\<forall>item\<in>set (followers_items data). \<forall>v.
                field item ''value'' = Some (JStr v) \<longrightarrow> v \<noteq> []
                \<longrightarrow> lower (strip v) \<in> keys users)
          \<and> (\<forall>k t. ts k = Some t \<longrightarrow> t \<noteq> JInt 0
                \<and> (\<exists>item\<in>set (followers_items data). \<exists>v.
                      field item ''value'' = Some (JStr v) \<and> k = lower (strip v)
                      \<and> field item ''timestamp'' = Some t))
          \<and> (\<forall>item\<in>set (followers_items data). \<forall>v n.
                field item ''value'' = Some (JStr v) \<longrightarrow> v \<noteq> []
                \<longrightarrow> field item ''timestamp'' = Some (JInt n) \<longrightarrow> n \<noteq> 0
                \<longrightarrow> lower (strip v) \<in> dom ts)))"
proof (intro conjI impI)
  show "parse_followers_with_timestamps [Decoded valid_followers_json] =
     Inr ([InstagramUser ''user1'', InstagramUser ''user2'', InstagramUser ''user3''],
          [''user1'' \<mapsto> JInt 123, ''user2'' \<mapsto> JInt 124, ''user3'' \<mapsto> JInt 125])"
    by (rule valid_followers_parsed)
next
  assume "well_formed_followers data"
  from parse_followers_with_timestamps_wf [OF this] obtain users ts
    where p: "parse_followers_with_timestamps [Decoded data] = Inr (users, ts)"
      and run: "for_each followers_item_ts (followers_items data) ([], Map.empty)
                  = Inr (users, ts)"
    by blast
  from p followers_loop [OF run]
  show "\<exists>users ts. parse_followers_with_timestamps [Decoded data] = Inr (users, ts)
          \<and> (\<forall>u\<in>set users. \<exists>item\<in>set (followers_items data). \<exists>v.
                field item ''value'' = Some (JStr v) \<and> username u = strip v)
          \<and> (\<forall>item\<in>set (followers_items data). \<forall>v.
                field item ''value'' = Some (JStr v) \<longrightarrow> v \<noteq> []
                \<longrightarrow> lower (strip v) \<in> keys users)
          \<and> (\<forall>k t. ts k = Some t \<longrightarrow> t \<noteq> JInt 0
                \<and> (\<exists>item\<in>set (followers_items data). \<exists>v.
                      field item ''value'' = Some (JStr v) \<and> k = lower (strip v)
                      \<and> field item ''timestamp'' = Some t))
          \<and> (\<forall>item\<in>set (followers_items data). \<forall>v n.
                field item ''value'' = Some (JStr v) \<longrightarrow> v \<noteq> []
                \<longrightarrow> field item ''timestamp'' = Some (JInt n) \<longrightarrow> n \<noteq> 0
                \<longrightarrow> lower (strip v) \<in> dom ts)"
    by blast
qed

lemma partial_followers_wf: "well_formed_followers partial_followers_json"
  by (simp add: partial_followers_json_def well_formed_followers_def well_formed_entry_def
      well_formed_item_def field_def absent_or_def)

lemma partial_followers_items:
  "followers_items partial_followers_json =
     [JObj [(''value'', JStr ''amy''), (''timestamp'', JInt 5)],
      JObj [(''href'', JStr ''x''), (''timestamp'', JInt 6)],
      JObj [(''value'', JStr ''bob'')],
      JObj [(''value'', JStr ''cat''), (''timestamp'', JInt 0)]]"
  by (simp add: partial_followers_json_def followers_items_def entry_items_def field_def)

lemma names_trimmed:
  "lower (strip ''amy'') = ''amy''" "lower (strip ''bob'') = ''bob''"
  "lower (strip ''cat'') = ''cat''" "strip ''amy'' = ''amy''" "strip ''bob'' = ''bob''"
  "strip ''cat'' = ''cat''" "lower ''amy'' = ''amy''" "lower ''bob'' = ''bob''"
  "lower ''cat'' = ''cat''"
  by (simp_all add: str_defs)

theorem parse_followers_with_timestamps_fields_witness:
  "well_formed_followers partial_followers_json
   \<and> (\<exists>users ts.
         parse_followers_with_timestamps [Decoded partial_followers_json] = Inr (users, ts)
         \<and> username ` set users \<subseteq> {''amy'', ''bob'', ''cat''}
         \<and> ''amy'' \<in> keys users \<and> ''amy'' \<in> dom ts
         \<and> ts ''bob'' = None \<and> ts ''cat'' = None)"
proof -
  note wf = partial_followers_wf
  from parse_followers_with_timestamps_fields [of partial_followers_json] wf
  obtain users ts
    where p: "parse_followers_with_timestamps [Decoded partial_followers_json] = Inr (users, ts)"
      and A: "\<forall>u\<in>set users. \<exists>item\<in>set (followers_items partial_followers_json). \<exists>v.
                field item ''value'' = Some (JStr v) \<and> username u = strip v"
      and B: "\<forall>item\<in>set (followers_items partial_followers_json). \<forall>v.
                field item ''value'' = Some (JStr v) \<longrightarrow> v \<noteq> []
                \<longrightarrow> lower (strip v) \<in> keys users"
      and C: "\<forall>k t. ts k = Some t \<longrightarrow> t \<noteq> JInt 0
                \<and> (\<exists>item\<in>set (followers_items partial_followers_json). \<exists>v.
                      field item ''value'' = Some (JStr v) \<and> k = lower (strip v)
                      \<and> field item ''timestamp'' = Some t)"
      and D: "\<forall>item\<in>set (followers_items partial_followers_json). \<forall>v n.
                field item ''value'' = Some (JStr v) \<longrightarrow> v \<noteq> []
                \<longrightarrow> field item ''timestamp'' = Some (JInt n) \<longrightarrow> n \<noteq> 0
                \<longrightarrow> lower (strip v) \<in> dom ts"
    by blast
  have 1: "username ` set users \<subseteq> {''amy'', ''bob'', ''cat''}"
    using A by (auto simp: partial_followers_items field_def names_trimmed)
  have 2: "''amy'' \<in> keys users"
    using B by (simp add: partial_followers_items field_def names_trimmed)
  have 3: "''amy'' \<in> dom ts"
    using D by (simp add: partial_followers_items field_def names_trimmed)
  have 4: "ts ''bob'' = None"
  proof (cases "ts ''bob''")
    case (Some t)
    with C show ?thesis
      by (auto simp: partial_followers_items field_def names_trimmed)
  qed simp
  have 5: "ts ''cat'' = None"
  proof (cases "ts ''cat''")
    case (Some t)
    with C show ?thesis
      by (auto simp: partial_followers_items field_def names_trimmed)
  qed simp
  from wf p 1 2 3 4 5 show ?thesis by blast
qed

section \<open>The same buffer twice\<close>

lemma for_each_grows:
  assumes "\<And>s x s'. f s x = Inr s' \<Longrightarrow> keys s \<subseteq> keys s'"
  shows "for_each f xs s = Inr s' \<Longrightarrow> keys s \<subseteq> keys s'"
proof (induction xs arbitrary: s)
  case Nil
  then show ?case by simp
next
  case (Cons x xs)
  from Cons.prems obtain s1 where s1: "f s x = Inr s1" and rest: "for_each f xs s1 = Inr s'"
    by (auto split: sum.splits)
  from assms [OF s1] Cons.IH [OF rest] show ?case by simp
qed

lemma for_each_absorbs:
  assumes grows: "\<And>s x s'. f s x = Inr s' \<Longrightarrow> keys s \<subseteq> keys s'"
    and absorbs: "\<And>s x s' t. f s x = Inr s' \<Longrightarrow> keys s' \<subseteq> keys t \<Longrightarrow> f t x = Inr t"
  shows "for_each f xs s = Inr s' \<Longrightarrow> keys s' \<subseteq> keys t \<Longrightarrow> for_each f xs t = Inr t"
proof (induction xs arbitrary: s)
  case Nil
  then show ?case by simp
next
  case (Cons x xs)
  from Cons.prems(1) obtain s1 where s1: "f s x = Inr s1" and rest: "for_each f xs s1 = Inr s'"
    by (auto split: sum.splits)
  have "keys s1 \<subseteq> keys s'" using for_each_grows [of f xs s1 s'] grows rest by blast
  with Cons.prems(2) have "f t x = Inr t" using absorbs [OF s1] by blast
  with Cons.IH [OF rest Cons.prems(2)] show ?case by simp
qed

lemma followers_item_grows: "followers_item s item = Inr s' \<Longrightarrow> keys s \<subseteq> keys s'"
  by (cases item)
    (auto simp: followers_item_def keys_set_add split: if_splits sum.splits)

lemma followers_item_absorbs:
  "followers_item s item = Inr s' \<Longrightarrow> keys s' \<subseteq> keys t \<Longrightarrow> followers_item t item = Inr t"
  by (cases item)
    (auto simp: followers_item_def keys_set_add set_add_absorb split: if_splits sum.splits)

lemma followers_entry_grows:
  assumes "followers_entry s entry = Inr s'"
  shows "keys s \<subseteq> keys s'"
proof -
  from assms obtain items where "for_each followers_item items s = Inr s'"
    unfolding followers_entry_def by (auto split: sum.splits)
  then show ?thesis
    using for_each_grows [of followers_item items s s'] followers_item_grows by blast
qed

lemma followers_entry_absorbs:
  assumes "followers_entry s entry = Inr s'" and "keys s' \<subseteq> keys t"
  shows "followers_entry t entry = Inr t"
proof -
  from assms(1) obtain l items
    where l: "py_get entry ''string_list_data'' (JArr []) = Inr l"
      and i: "py_iter l = Inr items"
      and run: "for_each followers_item items s = Inr s'"
    unfolding followers_entry_def by (auto split: sum.splits)
  have "for_each followers_item items t = Inr t"
    by (rule for_each_absorbs [of followers_item, OF followers_item_grows
          followers_item_absorbs run assms(2)])
  with l i show ?thesis by (simp add: followers_entry_def)
qed

lemma followers_file_grows:
  assumes "followers_file s content = Inr s'"
  shows "keys s \<subseteq> keys s'"
proof (cases "\<exists>entries. content = Decoded (JArr entries)")
  case True
  then obtain entries where c: "content = Decoded (JArr entries)" by blast
  with assms have "for_each followers_entry entries s = Inr s'"
    by (simp add: followers_file_def)
  then show ?thesis
    using for_each_grows [of followers_entry entries s s'] followers_entry_grows by blast
next
  case False
  with assms have "s' = s"
    by (auto simp: followers_file_def split: buffer.splits json.splits)
  then show ?thesis by simp
qed

lemma followers_file_absorbs:
  assumes "followers_file s content = Inr s'" and "keys s' \<subseteq> keys t"
  shows "followers_file t content = Inr t"
proof (cases "\<exists>entries. content = Decoded (JArr entries)")
  case True
  then obtain entries where c: "content = Decoded (JArr entries)" by blast
  with assms have run: "for_each followers_entry entries s = Inr s'"
    by (simp add: followers_file_def)
  have "for_each followers_entry entries t = Inr t"
    by (rule for_each_absorbs [of followers_entry, OF followers_entry_grows
          followers_entry_absorbs run assms(2)])
  with c show ?thesis by (simp add: followers_file_def)
next
  case False
  with assms(1) show ?thesis
    by (auto simp: followers_file_def split: buffer.splits json.splits)
qed

lemma parse_followers_repeat: "parse_followers [b, b] = parse_followers [b]"
proof (cases "followers_file [] b")
  case (Inl e)
  then show ?thesis by (simp add: parse_followers_def)
next
  case (Inr s1)
  from followers_file_absorbs [OF Inr, of s1] have "followers_file s1 b = Inr s1" by simp
  with Inr show ?thesis by (simp add: parse_followers_def)
qed

lemma followers_item_valid:
  "followers_item s item = Inr s' \<Longrightarrow> valid_set s \<Longrightarrow> valid_set s'"
  by (cases item)
    (auto simp: followers_item_def valid_set_add split: if_splits sum.splits)

lemma followers_entry_valid:
  assumes "followers_entry s entry = Inr s'" and "valid_set s"
  shows "valid_set s'"
proof -
  from assms(1) obtain items where run: "for_each followers_item items s = Inr s'"
    unfolding followers_entry_def by (auto split: sum.splits)
  show ?thesis
    by (rule for_each_invariant [where P = valid_set, OF run assms(2)])
      (rule followers_item_valid)
qed

lemma followers_file_valid:
  assumes "followers_file s content = Inr s'" and "valid_set s"
  shows "valid_set s'"
proof (cases "\<exists>entries. content = Decoded (JArr entries)")
  case True
  then obtain entries where c: "content = Decoded (JArr entries)" by blast
  with assms have run: "for_each followers_entry entries s = Inr s'"
    by (simp add: followers_file_def)
  show ?thesis
    by (rule for_each_invariant [where P = valid_set, OF run assms(2)])
      (rule followers_entry_valid)
next
  case False
  with assms have "s' = s"
    by (auto simp: followers_file_def split: buffer.splits json.splits)
  with assms(2) show ?thesis by simp
qed

lemma parse_followers_valid:
  assumes "parse_followers files = Inr users"
  shows "valid_set users"
proof -
  from assms have run: "for_each followers_file files [] = Inr users"
    by (simp add: parse_followers_def)
  have "valid_set []" by (simp add: valid_set_def)
  with run show ?thesis
    by (rule for_each_invariant [where P = valid_set]) (rule followers_file_valid)
qed

lemma parse_followers_wf:
  assumes "well_formed_followers data"
  shows "\<exists>users. parse_followers [Decoded data] = Inr users"
  using parse_followers_with_timestamps_wf [OF assms]
  by (auto simp: parse_followers_fst)

text \<open>
  C7. For every well-formed followers buffer, \<open>parse_followers\<close> returns on one copy
  and on two copies of it, with the same set in both cases, and no two members of that set
  are equal. Two copies of the three-user fixture give the three identities, not six.
\<close>

theorem parse_followers_twice:
  assumes "well_formed_followers data"
  shows "\<exists>users. parse_followers [Decoded data] = Inr users
           \<and> parse_followers [Decoded data, Decoded data] = Inr users
           \<and> valid_set users"
  using parse_followers_wf [OF assms] parse_followers_repeat [of "Decoded data"]
    parse_followers_valid [of "[Decoded data]"]
  by auto

lemma valid_followers_wf: "well_formed_followers valid_followers_json"
  by (simp add: valid_followers_json_def well_formed_followers_def well_formed_entry_def
      well_formed_item_def field_def absent_or_def)

theorem parse_followers_twice_witness:
  "well_formed_followers valid_followers_json
   \<and> parse_followers [Decoded valid_followers_json, Decoded valid_followers_json]
       = Inr [InstagramUser ''user1'', InstagramUser ''user2'', InstagramUser ''user3'']"
proof -
  have "parse_followers [Decoded valid_followers_json]
          = Inr [InstagramUser ''user1'', InstagramUser ''user2'', InstagramUser ''user3'']"
    by (simp add: parse_followers_fst valid_followers_parsed)
  with parse_followers_twice [OF valid_followers_wf] valid_followers_wf
  show ?thesis by auto
qed

section \<open>Well-formed following exports\<close>

lemma well_formed_following_entries:
  "well_formed_following data \<Longrightarrow> x \<in> set (following_entries data)
     \<Longrightarrow> well_formed_relationship x"
  by (auto simp: well_formed_following_def following_entries_def absent_or_def list_all_iff
      split: option.splits json.splits)

lemma parse_following_with_timestamps_loop:
  assumes "well_formed_following data"
  shows "parse_following_with_timestamps (Decoded data) =
           for_each following_entry_ts (following_entries data) ([], Map.empty)"
proof -
  from assms obtain kvs where d: "data = JObj kvs"
    by (auto simp: well_formed_following_def dest: is_objectE)
  show ?thesis
  proof (cases "map_of kvs ''relationships_following''")
    case None
    then show ?thesis
      by (simp add: d parse_following_with_timestamps_def following_entries_def field_def)
  next
    case (Some r)
    with assms d obtain rels where "r = JArr rels"
      by (auto simp: well_formed_following_def field_def absent_or_def dest: is_list_ofE)
    with Some show ?thesis
      by (simp add: d parse_following_with_timestamps_def following_entries_def field_def)
  qed
qed

lemma following_entry_ts_ok:
  assumes "well_formed_relationship entry"
  shows "\<exists>st'. following_entry_ts st entry = Inr st'"
proof -
  from assms obtain kvs where e: "entry = JObj kvs"
    by (auto simp: well_formed_relationship_def dest: is_objectE)
  from assms have t: "map_of kvs ''title'' = None \<or> (\<exists>v. map_of kvs ''title'' = Some (JStr v))"
    by (auto simp: e well_formed_relationship_def field_def absent_or_def
        split: option.splits dest: is_strE)
  from assms have l: "map_of kvs ''string_list_data'' = None
      \<or> (\<exists>subs. map_of kvs ''string_list_data'' = Some (JArr subs)
            \<and> list_all well_formed_sub subs)"
    by (auto simp: e well_formed_relationship_def field_def absent_or_def
        split: option.splits dest: is_list_ofE)
  from t l show ?thesis
    by (auto simp: e following_entry_ts_def well_formed_sub_def
        split: list.splits dest!: is_objectE)
qed

text \<open>The three ways in which the loop body of the following parser returns: the entry
  is passed over, it adds an identity only, or it adds an identity and the timestamp of the
  first element of its \<^verbatim>\<open>string_list_data\<close>.\<close>

lemma following_entry_ts_cases:
  assumes "following_entry_ts st entry = Inr st'"
  obtains "st' = st" "\<forall>v. field entry ''title'' = Some (JStr v) \<longrightarrow> v = []"
  | v where "field entry ''title'' = Some (JStr v)" "v \<noteq> []"
      "st' = (set_add (fst st) (InstagramUser (strip v)), snd st)"
      "\<forall>t. first_timestamp entry = Some t \<longrightarrow> \<not> truthy t"
  | v t where "field entry ''title'' = Some (JStr v)" "v \<noteq> []"
      "first_timestamp entry = Some t" "truthy t"
      "st' = (set_add (fst st) (InstagramUser (strip v)), (snd st)(lower (strip v) \<mapsto> t))"
proof (cases entry)
  case (JObj kvs)
  show ?thesis
  proof (cases "map_of kvs ''title''")
    case None
    with assms JObj have "st' = st" by (simp add: following_entry_ts_def)
    with None JObj that(1) show ?thesis by (simp add: field_def)
  next
    case (Some title)
    show ?thesis
    proof (cases "truthy title")
      case False
      with assms JObj Some have "st' = st" by (simp add: following_entry_ts_def)
      moreover from False have "\<forall>v. title = JStr v \<longrightarrow> v = []" by auto
      ultimately show ?thesis using Some JObj that(1) by (simp add: field_def)
    next
      case True
      with assms JObj Some obtain v where v: "title = JStr v" "v \<noteq> []"
        by (cases title) (auto simp: following_entry_ts_def)
      note tv = Some [unfolded v(1)]
      show ?thesis
      proof (cases "map_of kvs ''string_list_data''")
        case None
        with assms JObj tv v
        have "st' = (set_add (fst st) (InstagramUser (strip v)), snd st)"
          by (simp add: following_entry_ts_def)
        with JObj tv v None that(2) [of v] show ?thesis
          by (simp add: field_def first_timestamp_def)
      next
        case (Some l)
        show ?thesis
        proof (cases "truthy l")
          case False
          with assms JObj tv v Some
          have s: "st' = (set_add (fst st) (InstagramUser (strip v)), snd st)"
            by (simp add: following_entry_ts_def)
          from False have "\<forall>t. first_timestamp entry = Some t \<longrightarrow> \<not> truthy t"
            by (cases l) (auto simp: JObj Some first_timestamp_def field_def)
          with JObj tv v s that(2) [of v] show ?thesis
            by (simp add: field_def)
        next
          case True
          with assms JObj tv v Some obtain first rest where l: "l = JArr (first # rest)"
            by (cases l) (auto simp: following_entry_ts_def split: list.splits)
          with assms JObj tv v Some obtain skvs where f: "first = JObj skvs"
            by (cases first) (auto simp: following_entry_ts_def)
          let ?ts = "case map_of skvs ''timestamp'' of None \<Rightarrow> JNull | Some t \<Rightarrow> t"
          have ft: "first_timestamp entry = map_of skvs ''timestamp''"
            by (simp add: JObj Some l f first_timestamp_def field_def)
          show ?thesis
          proof (cases "truthy ?ts")
            case False
            with assms JObj tv v Some l f
            have s: "st' = (set_add (fst st) (InstagramUser (strip v)), snd st)"
              by (simp add: following_entry_ts_def)
            from False have "\<forall>t. first_timestamp entry = Some t \<longrightarrow> \<not> truthy t"
              by (auto simp: ft)
            with JObj tv v s that(2) [of v] show ?thesis
              by (simp add: field_def)
          next
            case True
            then obtain t where t: "map_of skvs ''timestamp'' = Some t" "truthy t"
              by (cases "map_of skvs ''timestamp''") auto
            with assms JObj tv v Some l f
            have "st' = (set_add (fst st) (InstagramUser (strip v)),
                         (snd st)(lower (strip v) \<mapsto> t))"
              by (simp add: following_entry_ts_def)
            with JObj tv v t ft that(3) [of v t] show ?thesis
              by (simp add: field_def)
          qed
        qed
      qed
    qed
  qed
qed (use assms in \<open>simp_all add: following_entry_ts_def\<close>)

lemma truthy_not_zero: "truthy t \<Longrightarrow> t \<noteq> JInt 0"
  by auto

lemma following_entry_ts_users:
  assumes "following_entry_ts st entry = Inr st'" and "u \<in> set (fst st')"
  shows "u \<in> set (fst st) \<or> (\<exists>v. field entry ''title'' = Some (JStr v) \<and> username u = strip v)"
  using assms(1)
proof (cases rule: following_entry_ts_cases)
  case 1
  with assms(2) show ?thesis by simp
next
  case (2 v)
  with assms(2) show ?thesis by (auto dest!: set_add_cases)
next
  case (3 v t)
  with assms(2) show ?thesis by (auto dest!: set_add_cases)
qed

lemma following_entry_ts_stamp:
  assumes "following_entry_ts st entry = Inr st'" and "snd st' k = Some t"
  shows "snd st k = Some t \<or>
         (t \<noteq> JInt 0 \<and> (\<exists>v. field entry ''title'' = Some (JStr v) \<and> k = lower (strip v)
            \<and> first_timestamp entry = Some t))"
  using assms(1)
proof (cases rule: following_entry_ts_cases)
  case 1
  with assms(2) show ?thesis by simp
next
  case (2 v)
  with assms(2) show ?thesis by simp
next
  case (3 v t')
  with assms(2) show ?thesis by (auto split: if_splits)
qed

lemma following_entry_ts_grows:
  assumes "following_entry_ts st entry = Inr st'"
  shows "keys (fst st) \<subseteq> keys (fst st') \<and> dom (snd st) \<subseteq> dom (snd st')"
  using assms
  by (cases rule: following_entry_ts_cases) (auto simp: keys_set_add)

lemma following_entry_ts_adds:
  assumes "following_entry_ts st entry = Inr st'"
    and "field entry ''title'' = Some (JStr v)" and "v \<noteq> []"
  shows "lower (strip v) \<in> keys (fst st')"
    and "first_timestamp entry = Some (JInt n) \<Longrightarrow> n \<noteq> 0 \<Longrightarrow> lower (strip v) \<in> dom (snd st')"
  using assms(1)
  by (cases rule: following_entry_ts_cases; use assms(2,3) in
      \<open>auto simp: keys_set_add canonical_def\<close>)+

lemma following_loop:
  assumes run: "for_each following_entry_ts rels ([], Map.empty) = Inr (users, ts)"
  shows "\<forall>u\<in>set users. \<exists>entry\<in>set rels. \<exists>v.
           field entry ''title'' = Some (JStr v) \<and> username u = strip v"
    and "\<forall>entry\<in>set rels. \<forall>v. field entry ''title'' = Some (JStr v) \<longrightarrow> v \<noteq> []
           \<longrightarrow> lower (strip v) \<in> keys users"
    and "\<forall>k t. ts k = Some t \<longrightarrow> t \<noteq> JInt 0 \<and> (\<exists>entry\<in>set rels. \<exists>v.
           field entry ''title'' = Some (JStr v) \<and> k = lower (strip v)
           \<and> first_timestamp entry = Some t)"
    and "\<forall>entry\<in>set rels. \<forall>v n. field entry ''title'' = Some (JStr v) \<longrightarrow> v \<noteq> []
           \<longrightarrow> first_timestamp entry = Some (JInt n) \<longrightarrow> n \<noteq> 0
           \<longrightarrow> lower (strip v) \<in> dom ts"
proof -
  let ?A = "\<lambda>st. \<forall>u\<in>set (fst st). \<exists>entry\<in>set rels. \<exists>v.
              field entry ''title'' = Some (JStr v) \<and> username u = strip v"
  have "?A (users, ts)"
  proof (rule for_each_invariant [OF run, of ?A])
    show "?A ([], Map.empty)" by simp
    show "?A st'" if "x \<in> set rels" "?A st" "following_entry_ts st x = Inr st'" for st x st'
      using that following_entry_ts_users [of st x st'] by blast
  qed
  then show "\<forall>u\<in>set users. \<exists>entry\<in>set rels. \<exists>v.
           field entry ''title'' = Some (JStr v) \<and> username u = strip v"
    by simp
  let ?C = "\<lambda>st. \<forall>k t. snd st k = Some t \<longrightarrow> t \<noteq> JInt 0 \<and> (\<exists>entry\<in>set rels. \<exists>v.
              field entry ''title'' = Some (JStr v) \<and> k = lower (strip v)
              \<and> first_timestamp entry = Some t)"
  have "?C (users, ts)"
  proof (rule for_each_invariant [OF run, of ?C])
    show "?C ([], Map.empty)" by simp
    show "?C st'" if "x \<in> set rels" "?C st" "following_entry_ts st x = Inr st'" for st x st'
      using that following_entry_ts_stamp [of st x st'] by blast
  qed
  then show "\<forall>k t. ts k = Some t \<longrightarrow> t \<noteq> JInt 0 \<and> (\<exists>entry\<in>set rels. \<exists>v.
           field entry ''title'' = Some (JStr v) \<and> k = lower (strip v)
           \<and> first_timestamp entry = Some t)"
    by simp
  let ?B = "\<lambda>entry st. \<forall>v. field entry ''title'' = Some (JStr v) \<longrightarrow> v \<noteq> []
              \<longrightarrow> lower (strip v) \<in> keys (fst st)"
  have "\<forall>entry\<in>set rels. ?B entry (users, ts)"
  proof (rule for_each_covers [OF run, of ?B])
    show "?B x st'" if "x \<in> set rels" "following_entry_ts st x = Inr st'" for st x st'
      using that following_entry_ts_adds(1) [of st x st'] by blast
    show "?B x st'" if "y \<in> set rels" "following_entry_ts st y = Inr st'" "?B x st"
      for st y st' x
      using that following_entry_ts_grows [of st y st'] by blast
  qed
  then show "\<forall>entry\<in>set rels. \<forall>v. field entry ''title'' = Some (JStr v) \<longrightarrow> v \<noteq> []
           \<longrightarrow> lower (strip v) \<in> keys users"
    by simp
  let ?D = "\<lambda>entry st. \<forall>v n. field entry ''title'' = Some (JStr v) \<longrightarrow> v \<noteq> []
              \<longrightarrow> first_timestamp entry = Some (JInt n) \<longrightarrow> n \<noteq> 0
              \<longrightarrow> lower (strip v) \<in> dom (snd st)"
  have "\<forall>entry\<in>set rels. ?D entry (users, ts)"
  proof (rule for_each_covers [OF run, of ?D])
    show "?D x st'" if "x \<in> set rels" "following_entry_ts st x = Inr st'" for st x st'
      using that following_entry_ts_adds(2) [of st x st'] by blast
    show "?D x st'" if "y \<in> set rels" "following_entry_ts st y = Inr st'" "?D x st"
      for st y st' x
      using that following_entry_ts_grows [of st y st'] by blast
  qed
  then show "\<forall>entry\<in>set rels. \<forall>v n. field entry ''title'' = Some (JStr v) \<longrightarrow> v \<noteq> []
           \<longrightarrow> first_timestamp entry = Some (JInt n) \<longrightarrow> n \<noteq> 0
           \<longrightarrow> lower (strip v) \<in> dom ts"
    by simp
qed

lemma parse_following_with_timestamps_wf:
  assumes "well_formed_following data"
  shows "\<exists>users ts. parse_following_with_timestamps (Decoded data) = Inr (users, ts)
           \<and> for_each following_entry_ts (following_entries data) ([], Map.empty)
               = Inr (users, ts)"
proof -
  have "\<exists>st'. for_each following_entry_ts (following_entries data) ([], Map.empty) = Inr st'"
    using well_formed_following_entries [OF assms]
    by (intro for_each_ok following_entry_ts_ok)
  then show ?thesis
    by (auto simp: parse_following_with_timestamps_loop [OF assms])
qed

lemma valid_following_parsed:
  "parse_following_with_timestamps (Decoded valid_following_json) =
     Inr ([InstagramUser ''user2'', InstagramUser ''user4''],
          [''user2'' \<mapsto> JInt 123, ''user4'' \<mapsto> JInt 124])"
  by (simp add: parser_defs valid_following_json_def str_defs set_defs)

text \<open>
  C6. The following fixture of the claim gives the identities \<^verbatim>\<open>user2\<close>, \<^verbatim>\<open>user4\<close> and the
  timestamp map \<^verbatim>\<open>{user2: 123, user4: 124}\<close>. For every well-formed following buffer the
  parser returns; every identity it returns is the trimmed \<^verbatim>\<open>title\<close> of an entry, and every
  entry with a non-empty title is represented; every key of the timestamp map comes with
  the timestamp of the first element of the \<^verbatim>\<open>string_list_data\<close> of an entry of that name,
  and every entry whose first element has a non-zero timestamp has its key in the map. So
  an entry whose first element is absent or has no timestamp adds no key.
\<close>

theorem parse_following_with_timestamps_fields:
  "parse_following_with_timestamps (Decoded valid_following_json) =
     Inr ([InstagramUser ''user2'', InstagramUser ''user4''],
          [''user2'' \<mapsto> JInt 123, ''user4'' \<mapsto> JInt 124])
   \<and> (well_formed_following data \<longrightarrow>
       (\<exists>users ts. parse_following_with_timestamps (Decoded data) = Inr (users, ts)
          \<and> (\<forall>u\<in>set users. \<exists>entry\<in>set (following_entries data). \<exists>v.
                field entry ''title'' = Some (JStr v) \<and> username u = strip v)
          \<and> (\<forall>entry\<in>set (following_entries data). \<forall>v.
                field entry ''title'' = Some (JStr v) \<longrightarrow> v \<noteq> []
                \<longrightarrow> lower (strip v) \<in> keys users)
          \<and> (\<forall>k t. ts k = Some t \<longrightarrow> t \<noteq> JInt 0
                \<and> (\<exists>entry\<in>set (following_entries data). \<exists>v.
                      field entry ''title'' = Some (JStr v) \<and> k = lower (strip v)
                      \<and> first_timestamp entry = Some t))
          \<and> (\<forall>entry\<in>set (following_entries data). \<forall>v n.
                field entry ''title'' = Some (JStr v) \<longrightarrow> v \<noteq> []
                \<longrightarrow> first_timestamp entry = Some (JInt n) \<longrightarrow> n \<noteq> 0
                \<longrightarrow> lower (strip v) \<in> dom ts)))"
proof (intro conjI impI)
  show "parse_following_with_timestamps (Decoded valid_following_json) =
     Inr ([InstagramUser ''user2'', InstagramUser ''user4''],
          [''user2'' \<mapsto> JInt 123, ''user4'' \<mapsto> JInt 124])"
    by (rule valid_following_parsed)
next
  assume "well_formed_following data"
  from parse_following_with_timestamps_wf [OF this] obtain users ts
    where p: "parse_following_with_timestamps (Decoded data) = Inr (users, ts)"
      and run: "for_each following_entry_ts (following_entries data) ([], Map.empty)
                  = Inr (users, ts)"
    by blast
  from p following_loop [OF run]
  show "\<exists>users ts. parse_following_with_timestamps (Decoded data) = Inr (users, ts)
          \<and> (\<forall>u\<in>set users. \<exists>entry\<in>set (following_entries data). \<exists>v.
                field entry ''title'' = Some (JStr v) \<and> username u = strip v)
          \<and> (\<forall>entry\<in>set (following_entries data). \<forall>v.
                field entry ''title'' = Some (JStr v) \<longrightarrow> v \<noteq> []
                \<longrightarrow> lower (strip v) \<in> keys users)
          \<and> (\<forall>k t. ts k = Some t \<longrightarrow> t \<noteq> JInt 0
                \<and> (\<exists>entry\<in>set (following_entries data). \<exists>v.
                      field entry ''title'' = Some (JStr v) \<and> k = lower (strip v)
                      \<and> first_timestamp entry = Some t))
          \<and> (\<forall>entry\<in>set (following_entries data). \<forall>v n.
                field entry ''title'' = Some (JStr v) \<longrightarrow> v \<noteq> []
                \<longrightarrow> first_timestamp entry = Some (JInt n) \<longrightarrow> n \<noteq> 0
                \<longrightarrow> lower (strip v) \<in> dom ts)"
    by blast
qed

lemma partial_following_wf: "well_formed_following partial_following_json"
  by (simp add: partial_following_json_def well_formed_following_def
      well_formed_relationship_def well_formed_sub_def field_def absent_or_def)

lemma partial_following_entries:
  "following_entries partial_following_json =
     [JObj [(''title'', JStr ''dan''),
            (''string_list_data'', JArr [JObj [(''timestamp'', JInt 7)],
                                         JObj [(''timestamp'', JInt 9)]])],
      JObj [(''title'', JStr ''eve''), (''string_list_data'', JArr [])],
      JObj [(''title'', JStr ''fay''),
            (''string_list_data'', JArr [JObj [(''href'', JStr ''x'')],
                                         JObj [(''timestamp'', JInt 3)]])],
      JObj [(''string_list_data'', JArr [JObj [(''timestamp'', JInt 4)]])],
      JObj [(''title'', JStr ''gus''),
            (''string_list_data'', JArr [JObj [(''timestamp'', JInt 0)]])]]"
  by (simp add: partial_following_json_def following_entries_def field_def)

lemma titles_trimmed:
  "strip ''dan'' = ''dan''" "strip ''eve'' = ''eve''" "strip ''fay'' = ''fay''"
  "strip ''gus'' = ''gus''" "lower ''dan'' = ''dan''" "lower ''eve'' = ''eve''"
  "lower ''fay'' = ''fay''" "lower ''gus'' = ''gus''"
  by (simp_all add: str_defs)

theorem parse_following_with_timestamps_fields_witness:
  "well_formed_following partial_following_json
   \<and> (\<exists>users ts.
         parse_following_with_timestamps (Decoded partial_following_json) = Inr (users, ts)
         \<and> username ` set users \<subseteq> {''dan'', ''eve'', ''fay'', ''gus''}
         \<and> ''fay'' \<in> keys users \<and> ''dan'' \<in> dom ts \<and> ts ''dan'' \<noteq> Some (JInt 9)
         \<and> ts ''eve'' = None \<and> ts ''fay'' = None \<and> ts ''gus'' = None)"
proof -
  note wf = partial_following_wf
  note ev = partial_following_entries field_def first_timestamp_def titles_trimmed
  from parse_following_with_timestamps_fields [of partial_following_json] wf
  obtain users ts
    where p: "parse_following_with_timestamps (Decoded partial_following_json)
                = Inr (users, ts)"
      and A: "\<forall>u\<in>set users. \<exists>entry\<in>set (following_entries partial_following_json). \<exists>v.
                field entry ''title'' = Some (JStr v) \<and> username u = strip v"
      and B: "\<forall>entry\<in>set (following_entries partial_following_json). \<forall>v.
                field entry ''title'' = Some (JStr v) \<longrightarrow> v \<noteq> []
                \<longrightarrow> lower (strip v) \<in> keys users"
      and C: "\<forall>k t. ts k = Some t \<longrightarrow> t \<noteq> JInt 0
                \<and> (\<exists>entry\<in>set (following_entries partial_following_json). \<exists>v.
                      field entry ''title'' = Some (JStr v) \<and> k = lower (strip v)
                      \<and> first_timestamp entry = Some t)"
      and D: "\<forall>entry\<in>set (following_entries partial_following_json). \<forall>v n.
                field entry ''title'' = Some (JStr v) \<longrightarrow> v \<noteq> []
                \<longrightarrow> first_timestamp entry = Some (JInt n) \<longrightarrow> n \<noteq> 0
                \<longrightarrow> lower (strip v) \<in> dom ts"
    by blast
  have 1: "username ` set users \<subseteq> {''dan'', ''eve'', ''fay'', ''gus''}"
    using A by (auto simp: ev)
  have 2: "''fay'' \<in> keys users"
    using B by (simp add: ev)
  have 3: "''dan'' \<in> dom ts"
    using D by (simp add: ev)
  have 4: "ts ''dan'' \<noteq> Some (JInt 9)"
  proof
    assume "ts ''dan'' = Some (JInt 9)"
    from C [rule_format, OF this] show False by (auto simp: ev)
  qed
  have 5: "ts ''eve'' = None"
  proof (cases "ts ''eve''")
    case (Some t)
    from C [rule_format, OF this] show ?thesis by (auto simp: ev)
  qed simp
  have 6: "ts ''fay'' = None"
  proof (cases "ts ''fay''")
    case (Some t)
    from C [rule_format, OF this] show ?thesis by (auto simp: ev)
  qed simp
  have 7: "ts ''gus'' = None"
  proof (cases "ts ''gus''")
    case (Some t)
    from C [rule_format, OF this] show ?thesis by (auto simp: ev)
  qed simp
  from wf p 1 2 3 4 5 6 7 show ?thesis by blast
qed

section \<open>A timestamp that is zero\<close>

lemma map_of_drop:
  "map_of (filter (\<lambda>kv. fst kv \<noteq> k) kvs) k' = (if k' = k then None else map_of kvs k')"
  by (induction kvs) auto

lemma map_of_map_field:
  "map_of (map (\<lambda>kv. if fst kv = k then (k, f (snd kv)) else kv) kvs) k' =
     (if k' = k then map_option f (map_of kvs k) else map_of kvs k')"
  by (induction kvs) auto

lemma for_each_map:
  "for_each f (map g xs) s = for_each (\<lambda>s x. f s (g x)) xs s"
  by (induction xs arbitrary: s) (auto split: sum.splits)

lemma map_field_simps:
  "map_field k f (JObj kvs) = JObj (map (\<lambda>kv. if fst kv = k then (k, f (snd kv)) else kv) kvs)"
  "map_field k f JNull = JNull" "map_field k f (JBool b) = JBool b"
  "map_field k f (JInt n) = JInt n" "map_field k f (JFloat x) = JFloat x"
  "map_field k f (JStr s) = JStr s" "map_field k f (JArr xs) = JArr xs"
  by (simp_all add: map_field_def)

lemma map_list_simps:
  "map_list f (JArr xs) = JArr (map f xs)"
  "map_list f JNull = JNull" "map_list f (JBool b) = JBool b"
  "map_list f (JInt n) = JInt n" "map_list f (JFloat x) = JFloat x"
  "map_list f (JStr s) = JStr s" "map_list f (JObj kvs) = JObj kvs"
  by (simp_all add: map_list_def)

lemma followers_item_ts_zero:
  "followers_item_ts st (zero_timestamp_absent item) = followers_item_ts st item"
  by (cases item)
    (auto simp: zero_timestamp_absent_def drop_field_def field_def followers_item_ts_def
      map_of_drop split: sum.splits option.splits)

lemma followers_entry_ts_zero:
  "followers_entry_ts st (map_field ''string_list_data'' (map_list zero_timestamp_absent) entry)
     = followers_entry_ts st entry"
proof (cases entry)
  case (JObj kvs)
  show ?thesis
  proof (cases "map_of kvs ''string_list_data''")
    case None
    then show ?thesis
      by (simp add: JObj map_field_simps followers_entry_ts_def map_of_map_field)
  next
    case (Some l)
    then show ?thesis
      by (cases l)
        (simp_all add: JObj map_field_simps map_list_simps followers_entry_ts_def
          map_of_map_field for_each_map followers_item_ts_zero)
  qed
qed (simp_all add: map_field_simps)

lemma followers_file_ts_zero:
  "followers_file_ts st (map_buffer followers_zero_absent content) = followers_file_ts st content"
proof (cases content)
  case (Decoded data)
  then show ?thesis
    by (cases data)
      (simp_all add: map_buffer_def followers_zero_absent_def map_list_simps
        followers_file_ts_def for_each_map followers_entry_ts_zero)
qed (simp_all add: map_buffer_def)

lemma parse_followers_with_timestamps_zero:
  "parse_followers_with_timestamps (map (map_buffer followers_zero_absent) files)
     = parse_followers_with_timestamps files"
  by (simp add: parse_followers_with_timestamps_def for_each_map followers_file_ts_zero)

lemma py_get_timestamp_zero:
  "py_get (zero_timestamp_absent x) ''timestamp'' JNull = Inr t \<Longrightarrow>
     \<exists>t'. py_get x ''timestamp'' JNull = Inr t' \<and> (t' = t \<or> (t' = JInt 0 \<and> t = JNull))"
  "py_get (zero_timestamp_absent x) ''timestamp'' JNull = Inl e \<Longrightarrow>
     py_get x ''timestamp'' JNull = Inl e"
  by (cases x; auto simp: zero_timestamp_absent_def drop_field_def field_def map_of_drop
      split: if_splits)+

lemma following_entry_ts_zero:
  "following_entry_ts st (map_field ''string_list_data'' (map_list zero_timestamp_absent) entry)
     = following_entry_ts st entry"
proof (cases entry)
  case (JObj kvs)
  let ?kvs = "map (\<lambda>kv. if fst kv = ''string_list_data''
                  then (''string_list_data'', map_list zero_timestamp_absent (snd kv)) else kv) kvs"
  have title: "py_get (JObj ?kvs) ''title'' JNull = py_get (JObj kvs) ''title'' JNull"
    by (simp add: map_of_map_field)
  have stamp: "(case py_get (zero_timestamp_absent first) ''timestamp'' JNull of
               Inl e \<Rightarrow> Inl e
             | Inr ts \<Rightarrow> Inr (us, if truthy ts then (snd st)(k \<mapsto> ts) else snd st))
          = (case py_get first ''timestamp'' JNull of
               Inl e \<Rightarrow> Inl e
             | Inr ts \<Rightarrow> Inr (us, if truthy ts then (snd st)(k \<mapsto> ts) else snd st))"
    for us k first
    using py_get_timestamp_zero [of first]
    by (cases "py_get (zero_timestamp_absent first) ''timestamp'' JNull") auto
  have rest: "(case py_get (JObj ?kvs) ''string_list_data'' (JArr []) of
                 Inl e \<Rightarrow> Inl e
               | Inr string_list \<Rightarrow>
                   if truthy string_list then
                     (case py_first string_list of
                        Inl e \<Rightarrow> Inl e
                      | Inr first \<Rightarrow>
                          (case py_get first ''timestamp'' JNull of
                             Inl e \<Rightarrow> Inl e
                           | Inr ts \<Rightarrow>
                               Inr (us, if truthy ts then (snd st)(k \<mapsto> ts) else snd st)))
                   else Inr (us, snd st))
            = (case py_get (JObj kvs) ''string_list_data'' (JArr []) of
                 Inl e \<Rightarrow> Inl e
               | Inr string_list \<Rightarrow>
                   if truthy string_list then
                     (case py_first string_list of
                        Inl e \<Rightarrow> Inl e
                      | Inr first \<Rightarrow>
                          (case py_get first ''timestamp'' JNull of
                             Inl e \<Rightarrow> Inl e
                           | Inr ts \<Rightarrow>
                               Inr (us, if truthy ts then (snd st)(k \<mapsto> ts) else snd st)))
                   else Inr (us, snd st))"
    for us k
  proof (cases "map_of kvs ''string_list_data''")
    case None
    then show ?thesis by (simp add: map_of_map_field)
  next
    case (Some l)
    show ?thesis
    proof (cases l)
      case (JArr xs)
      then show ?thesis
        using stamp by (cases xs) (simp_all add: Some map_of_map_field map_list_simps)
    qed (simp_all add: Some map_of_map_field map_list_simps)
  qed
  show ?thesis
    unfolding JObj map_field_simps following_entry_ts_def title rest
    by (rule refl)
qed (simp_all add: map_field_simps)

lemma parse_following_with_timestamps_zero:
  "parse_following_with_timestamps (map_buffer following_zero_absent content)
     = parse_following_with_timestamps content"
proof (cases content)
  case (Decoded data)
  show ?thesis
  proof (cases data)
    case (JObj kvs)
    show ?thesis
    proof (cases "map_of kvs ''relationships_following''")
      case None
      then show ?thesis
        by (simp add: Decoded JObj map_buffer_def following_zero_absent_def map_field_simps
            parse_following_with_timestamps_def map_of_map_field)
    next
      case (Some r)
      then show ?thesis
        by (cases r)
          (simp_all add: Decoded JObj map_buffer_def following_zero_absent_def map_field_simps
            map_list_simps parse_following_with_timestamps_def map_of_map_field for_each_map
            following_entry_ts_zero)
    qed
  qed (simp_all add: Decoded map_buffer_def following_zero_absent_def map_field_simps)
qed (simp_all add: map_buffer_def)

lemma followers_item_ts_zero_field:
  assumes "field item ''timestamp'' = Some (JInt 0)"
  shows "followers_item_ts st item = followers_item_ts st (drop_field ''timestamp'' item)"
  using followers_item_ts_zero [of st item] assms
  by (simp add: zero_timestamp_absent_def)

lemma map_of_set_field:
  "map_of (map (\<lambda>kv. if fst kv = k then (k, c) else kv) kvs) k' =
     (if k' = k then map_option (\<lambda>v. c) (map_of kvs k) else map_of kvs k')"
  by (induction kvs) auto

lemma following_entry_ts_zero_field:
  assumes "field entry ''string_list_data'' = Some (JArr (first # rest))"
    and "field first ''timestamp'' = Some (JInt 0)"
  shows "following_entry_ts st entry =
           following_entry_ts st
             (map_field ''string_list_data''
                (\<lambda>l. JArr (drop_field ''timestamp'' first # rest)) entry)"
proof -
  from assms(1) obtain kvs where e: "entry = JObj kvs"
    and l: "map_of kvs ''string_list_data'' = Some (JArr (first # rest))"
    by (cases entry) (auto simp: field_def)
  from assms(2) obtain skvs where f: "first = JObj skvs"
    and t: "map_of skvs ''timestamp'' = Some (JInt 0)"
    by (cases first) (auto simp: field_def)
  show ?thesis
    by (simp add: e l f t following_entry_ts_def map_field_simps map_of_set_field
        drop_field_def map_of_drop cong: sum.case_cong if_cong)
qed

text \<open>
  C10. An item of a followers export, or the first element of an entry of a following
  export, whose \<^verbatim>\<open>timestamp\<close> is the integer 0 is treated as the same item without the
  field; and taking every such field out of the buffers changes nothing in what the two
  parsers with timestamps return, the timestamp map included.
\<close>

theorem zero_timestamp_as_absent:
  "(field item ''timestamp'' = Some (JInt 0) \<longrightarrow>
      followers_item_ts st item = followers_item_ts st (drop_field ''timestamp'' item))
   \<and> (field entry ''string_list_data'' = Some (JArr (first # rest)) \<longrightarrow>
      field first ''timestamp'' = Some (JInt 0) \<longrightarrow>
      following_entry_ts st entry =
        following_entry_ts st
          (map_field ''string_list_data''
             (\<lambda>l. JArr (drop_field ''timestamp'' first # rest)) entry))
   \<and> parse_followers_with_timestamps (map (map_buffer followers_zero_absent) files)
       = parse_followers_with_timestamps files
   \<and> parse_following_with_timestamps (map_buffer following_zero_absent content)
       = parse_following_with_timestamps content"
  using followers_item_ts_zero_field [of item st]
    following_entry_ts_zero_field [of entry first rest st]
  by (simp add: parse_followers_with_timestamps_zero parse_following_with_timestamps_zero)

lemma partial_followers_parsed:
  "parse_followers_with_timestamps [Decoded partial_followers_json] =
     Inr ([InstagramUser ''amy'', InstagramUser ''bob'', InstagramUser ''cat''],
          [''amy'' \<mapsto> JInt 5])"
  by (simp add: parser_defs partial_followers_json_def str_defs set_defs)

lemma partial_following_parsed:
  "parse_following_with_timestamps (Decoded partial_following_json) =
     Inr ([InstagramUser ''dan'', InstagramUser ''eve'', InstagramUser ''fay'',
           InstagramUser ''gus''],
          [''dan'' \<mapsto> JInt 7])"
  by (simp add: parser_defs partial_following_json_def str_defs set_defs)

lemma partial_zero_absent:
  "followers_zero_absent partial_followers_json \<noteq> partial_followers_json"
  "following_zero_absent partial_following_json \<noteq> partial_following_json"
  by (simp_all add: followers_zero_absent_def following_zero_absent_def
      partial_followers_json_def partial_following_json_def map_field_simps map_list_simps
      zero_timestamp_absent_def drop_field_def field_def)

theorem zero_timestamp_as_absent_witness:
  "field (JObj [(''value'', JStr ''cat''), (''timestamp'', JInt 0)]) ''timestamp'' = Some (JInt 0)
   \<and> followers_item_ts ([], Map.empty) (JObj [(''value'', JStr ''cat''), (''timestamp'', JInt 0)])
       = followers_item_ts ([], Map.empty) (JObj [(''value'', JStr ''cat'')])
   \<and> field (JObj [(''title'', JStr ''gus''),
                   (''string_list_data'', JArr [JObj [(''timestamp'', JInt 0)]])])
         ''string_list_data'' = Some (JArr [JObj [(''timestamp'', JInt 0)]])
   \<and> following_entry_ts ([], Map.empty)
         (JObj [(''title'', JStr ''gus''),
                (''string_list_data'', JArr [JObj [(''timestamp'', JInt 0)]])])
       = following_entry_ts ([], Map.empty)
           (JObj [(''title'', JStr ''gus''), (''string_list_data'', JArr [JObj []])])
   \<and> followers_zero_absent partial_followers_json \<noteq> partial_followers_json
   \<and> parse_followers_with_timestamps [Decoded (followers_zero_absent partial_followers_json)]
       = Inr ([InstagramUser ''amy'', InstagramUser ''bob'', InstagramUser ''cat''],
              [''amy'' \<mapsto> JInt 5])
   \<and> following_zero_absent partial_following_json \<noteq> partial_following_json
   \<and> parse_following_with_timestamps (Decoded (following_zero_absent partial_following_json))
       = Inr ([InstagramUser ''dan'', InstagramUser ''eve'', InstagramUser ''fay'',
               InstagramUser ''gus''],
              [''dan'' \<mapsto> JInt 7])"
  using zero_timestamp_as_absent
    [where item = "JObj [(''value'', JStr ''cat''), (''timestamp'', JInt 0)]"
       and st = "([], Map.empty)" and files = "[Decoded partial_followers_json]"
       and content = "Decoded partial_following_json"
       and entry = "JObj [(''title'', JStr ''gus''),
                          (''string_list_data'', JArr [JObj [(''timestamp'', JInt 0)]])]"
       and first = "JObj [(''timestamp'', JInt 0)]" and rest = "[]"]
    partial_zero_absent
  by (simp add: field_def drop_field_def map_field_simps map_buffer_def
      partial_followers_parsed partial_following_parsed)

end
